theory Spec2Isabelle
  imports Complex_Main
begin

section \<open>Data model of the network map (MapNetwork.tsx, lines 19-35)\<close>

text \<open>
  A JavaScript \<^verbatim>\<open>number\<close> is modelled as a real number where a statement is about the
  geometry in exact arithmetic. Where rounding decides a statement, the arc of a link from a
  device to itself and the index that \<^verbatim>\<open>nearestSegmentIndex\<close> returns, the function is
  evaluated in double arithmetic (section Double arithmetic). A coordinate pair \<^verbatim>\<open>[number, number]\<close> is a pair of reals. The optional
  fields \<^verbatim>\<open>waypoints?\<close> and \<^verbatim>\<open>curvy?\<close> of a link are options: \<open>None\<close> is JavaScript's
  \<^verbatim>\<open>undefined\<close>.
\<close>

type_synonym point = "real \<times> real"

datatype DeviceStatus = Available | Connected | Disabled

record Device =
  devId :: string
  label :: string
  coords :: "real \<times> real"
  status :: DeviceStatus
  width :: real
  height :: real

datatype LinkStyle = Straight | Curved | Custom

record Link =
  source :: string
  target :: string
  style :: LinkStyle
  waypoints :: "point list option"
  curvy :: "bool option"

section \<open>Geometry (lines 192-223)\<close>

text \<open>\<^verbatim>\<open>Math.hypot(x, y)\<close>.\<close>

definition hypot :: "real \<Rightarrow> real \<Rightarrow> real" where
  "hypot x y = sqrt (x * x + y * y)"

text \<open>\<^verbatim>\<open>x || y\<close> on numbers: \<open>y\<close> when \<open>x\<close> is zero (the only falsy real), else \<open>x\<close>.\<close>

definition orElse :: "real \<Rightarrow> real \<Rightarrow> real" where
  "orElse x y = (if x = 0 then y else x)"

text \<open>
  \<^verbatim>\<open>curvedPath(a, b, segments, curvature)\<close>: the quadratic Bezier arc from \<open>a\<close> to \<open>b\<close> whose
  control point is the midpoint pushed along the unit left normal of \<open>b - a\<close> by
  \<open>|b - a| * curvature\<close>, sampled at \<open>i / segments\<close> for \<open>i = 0 .. segments\<close>.
\<close>

definition curvedPath :: "point \<Rightarrow> point \<Rightarrow> nat \<Rightarrow> real \<Rightarrow> point list" where
  "curvedPath a b segments curvature =
     (let alat = fst a; alng = snd a; blat = fst b; blng = snd b;
          mid = ((alat + blat) / 2, (alng + blng) / 2);
          vx = blat - alat; vy = blng - alng;
          plen = orElse (hypot (- vy) vx) 1;
          px = - vy / plen; py = vx / plen;
          d = hypot vx vy; k = d * curvature;
          cx = fst mid + px * k; cy = snd mid + py * k
      in map (\<lambda>i. let t = real i / real segments; omt = 1 - t
                 in (omt * omt * alat + 2 * omt * t * cx + t * t * blat,
                     omt * omt * alng + 2 * omt * t * cy + t * t * blng))
             [0..<segments + 1])"

text \<open>One sample of the Catmull-Rom basis on the window \<open>p0 p1 p2 p3\<close> (lines 207-208).\<close>

definition crSample :: "point \<Rightarrow> point \<Rightarrow> point \<Rightarrow> point \<Rightarrow> real \<Rightarrow> point" where
  "crSample p0 p1 p2 p3 t =
     (let t2 = t * t; t3 = t2 * t;
          lat = 0.5 * ((2 * fst p1) + (- fst p0 + fst p2) * t
                  + (2 * fst p0 - 5 * fst p1 + 4 * fst p2 - fst p3) * t2
                  + (- fst p0 + 3 * fst p1 - 3 * fst p2 + fst p3) * t3);
          lng = 0.5 * ((2 * snd p1) + (- snd p0 + snd p2) * t
                  + (2 * snd p0 - 5 * snd p1 + 4 * snd p2 - snd p3) * t2
                  + (- snd p0 + 3 * snd p1 - 3 * snd p2 + snd p3) * t3)
      in (lat, lng))"

text \<open>
  \<^verbatim>\<open>catmullRomSpline(points, samplesPerSeg)\<close>: at most two points are returned as they are;
  otherwise the list is padded with its first and last point, every window of four
  consecutive points yields \<open>samplesPerSeg\<close> samples, and the last point is appended.
  The guard makes \<open>hd\<close> and \<open>last\<close> safe: they are only read on a list of three or more.
\<close>

definition catmullRomSpline :: "point list \<Rightarrow> nat \<Rightarrow> point list" where
  "catmullRomSpline points samplesPerSeg =
     (if length points \<le> 2 then points
      else let P = [hd points] @ points @ [last points]
           in concat (map (\<lambda>i. map (\<lambda>j. crSample (P ! i) (P ! (i + 1)) (P ! (i + 2)) (P ! (i + 3))
                                             (real j / real samplesPerSeg))
                                    [0..<samplesPerSeg])
                          [0..<length P - 3])
              @ [last points])"

text \<open>
  The body of the loop of \<^verbatim>\<open>nearestSegmentIndex\<close> in exact arithmetic: the squared distance
  from \<open>p\<close> to its clamped projection on the segment from \<open>a\<close> to \<open>b\<close> (lines 217-220).
  It is the distance the loop approximates; the value the loop computes and compares is
  \<open>segDist64\<close> of section Double arithmetic.
\<close>

definition segDist :: "point \<Rightarrow> point \<Rightarrow> point \<Rightarrow> real" where
  "segDist a b p =
     (let ax = fst a; ay = snd a; bx = fst b; by = snd b; px = fst p; py = snd p;
          vx = bx - ax; vy = by - ay; wx = px - ax; wy = py - ay;
          vv = orElse (vx * vx + vy * vy) (1 / 10 ^ 9);
          t = max 0 (min 1 ((vx * wx + vy * wy) / vv));
          cx = ax + t * vx; cy = ay + t * vy
      in (px - cx) * (px - cx) + (py - cy) * (py - cy))"

text \<open>
  \<^verbatim>\<open>d < bestD\<close> where \<open>bestD\<close> starts as \<^verbatim>\<open>Infinity\<close>: \<open>None\<close> is \<^verbatim>\<open>Infinity\<close>, above every real.
\<close>

fun belowBest :: "real \<Rightarrow> real option \<Rightarrow> bool" where
  "belowBest d None = True"
| "belowBest d (Some b) = (d < b)"

text \<open>
  \<^verbatim>\<open>nearestSegmentIndex(vertices, p)\<close> in exact arithmetic: the loop over
  \<open>i = 0 ..< length - 1\<close> keeps the pair \<open>(bestI, bestD)\<close>; every index read is in range.
  Two segments at the same exact distance can be computed apart by the program, so the
  index the program returns is that of \<open>nearestSegmentIndex64\<close> of section Double arithmetic.
\<close>

definition nearestStep :: "point list \<Rightarrow> point \<Rightarrow> nat \<Rightarrow> nat \<times> real option \<Rightarrow> nat \<times> real option" where
  "nearestStep vertices p i best =
     (let d = segDist (vertices ! i) (vertices ! (i + 1)) p
      in if belowBest d (snd best) then (i, Some d) else best)"

definition nearestSegmentIndex :: "point list \<Rightarrow> point \<Rightarrow> nat" where
  "nearestSegmentIndex vertices p =
     fst (fold (nearestStep vertices p) [0..<length vertices - 1] (0, None))"

section \<open>Rendering a link (lines 262-263, 283-289)\<close>

definition findDevice :: "Device list \<Rightarrow> string \<Rightarrow> Device option" where
  "findDevice devs i = find (\<lambda>d. devId d = i) devs"

definition findLink :: "Link list \<Rightarrow> string \<Rightarrow> string \<Rightarrow> Link option" where
  "findLink ls s t = find (\<lambda>l. source l = s \<and> target l = t) ls"

text \<open>A device stores \<open>(lng, lat)\<close>; geometry works on \<open>(lat, lng)\<close>:
  \<^verbatim>\<open>[a.coords[1], a.coords[0]]\<close>.\<close>

definition latlng :: "Device \<Rightarrow> point" where
  "latlng d = (snd (coords d), fst (coords d))"

text \<open>\<^verbatim>\<open>l.waypoints ?? []\<close>.\<close>

definition waypointsOrEmpty :: "Link \<Rightarrow> point list" where
  "waypointsOrEmpty l = (case waypoints l of None \<Rightarrow> [] | Some w \<Rightarrow> w)"

text \<open>
  The positions \<^verbatim>\<open>renderedLinks\<close> computes for one link: \<open>None\<close> when an endpoint device
  is missing (the link is skipped), otherwise the render path by style. \<^verbatim>\<open>l.curvy\<close> is
  truthy only when it is \<^verbatim>\<open>true\<close>.
\<close>

definition computeRenderPath :: "Device list \<Rightarrow> Link \<Rightarrow> point list option" where
  "computeRenderPath devs l =
     (case findDevice devs (source l) of
        None \<Rightarrow> None
      | Some a \<Rightarrow>
          (case findDevice devs (target l) of
             None \<Rightarrow> None
           | Some b \<Rightarrow>
               (let A = latlng a; B = latlng b
                in Some (case style l of
                     Straight \<Rightarrow> [A, B]
                   | Curved \<Rightarrow> curvedPath A B 28 0.28
                   | Custom \<Rightarrow>
                       (let ctrl = [A] @ waypointsOrEmpty l @ [B]
                        in if curvy l = Some True then catmullRomSpline ctrl 14 else ctrl)))))"

section \<open>Sample data (lines 37-50)\<close>

definition sampleDevices :: "Device list" where
  "sampleDevices =
     [\<lparr>devId = ''a'', label = ''Bangkok'', coords = (100.5018, 13.7563),
        status = Available, width = 0, height = 0\<rparr>,
      \<lparr>devId = ''b'', label = ''Tokyo'', coords = (139.6917, 35.6895),
        status = Connected, width = 0, height = 0\<rparr>,
      \<lparr>devId = ''c'', label = ''Paris'', coords = (2.3522, 48.8566),
        status = Available, width = 0, height = 0\<rparr>,
      \<lparr>devId = ''d'', label = ''New York'', coords = (- 74.006, 40.7128),
        status = Disabled, width = 0, height = 0\<rparr>]"

definition sampleLinks :: "Link list" where
  "sampleLinks =
     [\<lparr>source = ''a'', target = ''b'', style = Straight, waypoints = None, curvy = None\<rparr>,
      \<lparr>source = ''b'', target = ''c'', style = Curved, waypoints = None, curvy = None\<rparr>,
      \<lparr>source = ''a'', target = ''c'', style = Straight, waypoints = None, curvy = None\<rparr>,
      \<lparr>source = ''c'', target = ''d'', style = Custom, waypoints = Some [(45, 10)],
        curvy = Some False\<rparr>]"

section \<open>Component state and store operations (lines 247-274)\<close>

text \<open>
  The React state of \<^verbatim>\<open>MapNetwork\<close> that the editing engine reads and writes. Every setter
  is called with an updater or a value inside one event handler, so a handler is a function
  from the state before the event to the state after it. \<open>editingLink\<close> is the pair
  \<open>(source, target)\<close> and \<open>draggingWp\<close> the triple \<open>(source, target, index)\<close>; \<open>None\<close> is
  \<^verbatim>\<open>null\<close>. The registry of Leaflet markers and the popup draft belong to the rendering
  layer and are left out.
\<close>

record State =
  devices :: "Device list"
  links :: "Link list"
  selectedId :: "string option"
  openPopupId :: "string option"
  editingLink :: "(string \<times> string) option"
  draggingWp :: "(string \<times> string \<times> nat) option"

definition initialState :: State where
  "initialState =
     \<lparr>devices = sampleDevices, links = sampleLinks, selectedId = None, openPopupId = None,
      editingLink = None, draggingWp = None\<rparr>"

definition removeDevice :: "string \<Rightarrow> State \<Rightarrow> State" where
  "removeDevice i st =
     st\<lparr>openPopupId := (if openPopupId st = Some i then None else openPopupId st),
        selectedId := (if selectedId st = Some i then None else selectedId st),
        devices := filter (\<lambda>d. devId d \<noteq> i) (devices st),
        links := filter (\<lambda>l. source l \<noteq> i \<and> target l \<noteq> i) (links st),
        editingLink :=
          (case editingLink st of
             None \<Rightarrow> None
           | Some (s, t) \<Rightarrow> if s = i \<or> t = i then None else Some (s, t))\<rparr>"

definition addLink :: "string \<Rightarrow> string \<Rightarrow> State \<Rightarrow> State" where
  "addLink s t st =
     st\<lparr>links :=
          (if list_ex (\<lambda>e. source e = s \<and> target e = t) (links st) then links st
           else links st @
             [\<lparr>source = s, target = t, style = Straight, waypoints = Some [], curvy = None\<rparr>])\<rparr>"

definition setLinkStyle :: "string \<Rightarrow> string \<Rightarrow> LinkStyle \<Rightarrow> State \<Rightarrow> State" where
  "setLinkStyle s t sty st =
     st\<lparr>links := map (\<lambda>l. if source l = s \<and> target l = t then l\<lparr>style := sty\<rparr> else l) (links st)\<rparr>"

definition setLinkCurvy :: "string \<Rightarrow> string \<Rightarrow> bool \<Rightarrow> State \<Rightarrow> State" where
  "setLinkCurvy s t c st =
     st\<lparr>links := map (\<lambda>l. if source l = s \<and> target l = t then l\<lparr>curvy := Some c\<rparr> else l) (links st)\<rparr>"

definition setLinkWaypoints :: "string \<Rightarrow> string \<Rightarrow> point list \<Rightarrow> State \<Rightarrow> State" where
  "setLinkWaypoints s t wps st =
     st\<lparr>links := map (\<lambda>l. if source l = s \<and> target l = t then l\<lparr>waypoints := Some wps\<rparr> else l)
                    (links st)\<rparr>"

definition removeLink :: "string \<Rightarrow> string \<Rightarrow> State \<Rightarrow> State" where
  "removeLink s t st =
     st\<lparr>links := filter (\<lambda>l. \<not> (source l = s \<and> target l = t)) (links st),
        editingLink := (if editingLink st = Some (s, t) then None else editingLink st)\<rparr>"

text \<open>
  The key handler (line 276). \<open>formTyping\<close> is what \<^verbatim>\<open>isFormTyping()\<close> reads from the
  document. Escape leaves the edit session; Delete or Backspace removes the selected device.
  \<^verbatim>\<open>!selectedId\<close> holds for \<^verbatim>\<open>null\<close> and for the empty string.
\<close>

definition onKey :: "string \<Rightarrow> bool \<Rightarrow> State \<Rightarrow> State" where
  "onKey key formTyping st =
     (let st1 = (if key = ''Escape'' \<and> editingLink st \<noteq> None
                 then st\<lparr>editingLink := None, draggingWp := None\<rparr> else st)
      in case selectedId st of
           None \<Rightarrow> st1
         | Some sel \<Rightarrow>
             if sel = [] \<or> formTyping then st1
             else if key = ''Delete'' \<or> key = ''Backspace'' then removeDevice sel st1
             else st1)"

text \<open>
  A click on the marker of device \<open>i\<close> (line 357) selects it and closes the popup of
  another device. An empty string is falsy, as \<^verbatim>\<open>null\<close> is.
\<close>

definition onMarkerClick :: "string \<Rightarrow> State \<Rightarrow> State" where
  "onMarkerClick i st =
     st\<lparr>selectedId := Some i,
        openPopupId :=
          (case openPopupId st of
             None \<Rightarrow> None
           | Some p \<Rightarrow> if p \<noteq> [] \<and> p \<noteq> i then None else Some p)\<rparr>"

section \<open>Path editing (lines 278-316)\<close>

text \<open>
  \<^verbatim>\<open>seedFromCurve(l)\<close>, always called with its default \<^verbatim>\<open>samples = 10\<close>: the arc with 36
  segments without its first and last point, thinned to every \<open>step\<close>-th point.
\<close>

definition seedFromCurve :: "Link \<Rightarrow> State \<Rightarrow> State" where
  "seedFromCurve l st =
     (case findDevice (devices st) (source l) of
        None \<Rightarrow> st
      | Some a \<Rightarrow>
          (case findDevice (devices st) (target l) of
             None \<Rightarrow> st
           | Some b \<Rightarrow>
               (let samples = 10;
                    curve = curvedPath (latlng a) (latlng b) 36 0.28;
                    inner = butlast (tl curve);
                    step = max 1 (length inner div samples)
                in setLinkWaypoints (source l) (target l)
                     (map (\<lambda>i. inner ! i) (filter (\<lambda>i. i mod step = 0) [0..<length inner])) st)))"

text \<open>
  The context-menu handler of a rendered link \<open>l\<close> (line 291): convert a curved or straight
  link to a custom one, then enter the edit session for it.
\<close>

definition onContextMenu :: "Link \<Rightarrow> State \<Rightarrow> State" where
  "onContextMenu l st =
     (let s = source l; t = target l;
          st1 = (if style l = Curved
                 then seedFromCurve l (setLinkCurvy s t True (setLinkStyle s t Custom st))
                 else if style l = Straight
                 then (let st2 = setLinkCurvy s t False (setLinkStyle s t Custom st)
                       in if waypoints l = None then setLinkWaypoints s t [] st2 else st2)
                 else st)
      in st1\<lparr>editingLink := Some (s, t)\<rparr>)"

text \<open>
  The handlers of \<^verbatim>\<open>WaypointDragOverlay\<close> (lines 299-301): a mouse move while a waypoint
  is dragged, the mouse release, and a right click on the map.
\<close>

definition onMouseMove :: "point \<Rightarrow> State \<Rightarrow> State" where
  "onMouseMove ll st =
     (case draggingWp st of
        None \<Rightarrow> st
      | Some (s, t, index) \<Rightarrow>
          (case findLink (links st) s t of
             None \<Rightarrow> st
           | Some l \<Rightarrow>
               if style l \<noteq> Custom then st
               else let wps = waypointsOrEmpty l
                    in if \<not> index < length wps then st
                       else setLinkWaypoints s t (wps[index := ll]) st))"

definition onMouseUp :: "State \<Rightarrow> State" where
  "onMouseUp st = (if draggingWp st \<noteq> None then st\<lparr>draggingWp := None\<rparr> else st)"

definition onMapContextMenu :: "State \<Rightarrow> State" where
  "onMapContextMenu st =
     (if editingLink st \<noteq> None then st\<lparr>editingLink := None, draggingWp := None\<rparr> else st)"

text \<open>
  \<^verbatim>\<open>LinkPathEditor\<close> (lines 304-316) shows one handle per waypoint of the edited link when
  that link exists and is custom; \<open>activeLink\<close> is that link. A handle event with no such
  handle cannot happen and leaves the state as it is.
\<close>

definition activeLink :: "State \<Rightarrow> Link option" where
  "activeLink st =
     (case editingLink st of
        None \<Rightarrow> None
      | Some (s, t) \<Rightarrow>
          (case findLink (links st) s t of
             None \<Rightarrow> None
           | Some l \<Rightarrow> if style l = Custom then Some l else None))"

definition onHandleDragStart :: "nat \<Rightarrow> State \<Rightarrow> State" where
  "onHandleDragStart i st =
     (case activeLink st of
        None \<Rightarrow> st
      | Some l \<Rightarrow>
          if i < length (waypointsOrEmpty l)
          then st\<lparr>draggingWp := Some (source l, target l, i)\<rparr> else st)"

definition onHandleDragEnd :: "nat \<Rightarrow> point \<Rightarrow> State \<Rightarrow> State" where
  "onHandleDragEnd i ll st =
     (case activeLink st of
        None \<Rightarrow> st
      | Some l \<Rightarrow>
          if i < length (waypointsOrEmpty l)
          then (setLinkWaypoints (source l) (target l) ((waypointsOrEmpty l)[i := ll]) st)
                 \<lparr>draggingWp := None\<rparr>
          else st)"

text \<open>
  The style selector of a link in the device popup (lines 442-447): choosing straight or
  curved clears the waypoints and leaves the edit session of that link.
\<close>

definition onSelectStyle :: "Link \<Rightarrow> LinkStyle \<Rightarrow> State \<Rightarrow> State" where
  "onSelectStyle l ns st =
     (let s = source l; t = target l;
          leave = (\<lambda>x. if editingLink st = Some (s, t) then x\<lparr>editingLink := None\<rparr> else x)
      in case ns of
           Straight \<Rightarrow>
             leave (setLinkCurvy s t False (setLinkWaypoints s t [] (setLinkStyle s t Straight st)))
         | Curved \<Rightarrow>
             leave (setLinkCurvy s t True (setLinkWaypoints s t [] (setLinkStyle s t Curved st)))
         | Custom \<Rightarrow>
             (let st1 = setLinkStyle s t Custom st
              in if style l = Curved then seedFromCurve l (setLinkCurvy s t True st1)
                 else (let st2 = setLinkCurvy s t (curvy l = Some True) st1
                       in if waypoints l = None then setLinkWaypoints s t [] st2 else st2)))"

text \<open>
  The invariant of the edit session: a waypoint is dragged only on the link that is being
  edited.
\<close>

definition dragWithinEdit :: "State \<Rightarrow> bool" where
  "dragWithinEdit st =
     (case draggingWp st of
        None \<Rightarrow> True
      | Some (s, t, i) \<Rightarrow> editingLink st = Some (s, t))"

text \<open>
  The closed form of a sample of the arc: the point at parameter \<open>t\<close> of the chord from \<open>a\<close>
  to \<open>b\<close>, pushed along the left normal \<open>(- vy, vx)\<close> of the chord by \<open>2 c t (1 - t)\<close>.
  It is used to state what \<open>curvedPath\<close> computes, not to compute it.
\<close>

definition arcPoint :: "point \<Rightarrow> point \<Rightarrow> real \<Rightarrow> real \<Rightarrow> point" where
  "arcPoint a b c t =
     (fst a + t * (fst b - fst a) - 2 * c * t * (1 - t) * (snd b - snd a),
      snd a + t * (snd b - snd a) + 2 * c * t * (1 - t) * (fst b - fst a))"


section \<open>Double arithmetic\<close>

text \<open>
  Where a claim speaks of values bit for bit, the arc is also evaluated as JavaScript
  evaluates it. A finite IEEE 754 double is the rational number it denotes, and every
  operation is the exact operation followed by \<open>fl\<close>, rounding to the nearest number with a
  significand of 53 bits, ties to the even significand. The exponent is not bounded: overflow
  to \<^verbatim>\<open>Infinity\<close>, subnormal numbers and \<^verbatim>\<open>NaN\<close> are outside the model, and the two zeros
  are one number. Coordinates are latitudes and longitudes, far from those ranges.
\<close>

type_synonym double = rat

text \<open>The number of binary digits of a positive integer.\<close>

function bits :: "int \<Rightarrow> int" where
  "bits n = (if n \<le> 0 then 0 else 1 + bits (n div 2))"
  by pat_completeness auto
termination
  by (relation "measure nat") auto

declare bits.simps [simp del]

definition pow2 :: "int \<Rightarrow> rat" where
  "pow2 e = (if 0 \<le> e then 2 ^ nat e else 1 / 2 ^ nat (- e))"

text \<open>The exponent \<open>e\<close> with \<open>2 ^ e \<le> |x| < 2 ^ (e + 1)\<close>, for \<open>x\<close> not zero.\<close>

definition binade :: "rat \<Rightarrow> int" where
  "binade x =
     (let (p, q) = quotient_of \<bar>x\<bar>; e0 = bits p - bits q
      in if \<bar>x\<bar> < pow2 e0 then e0 - 1 else e0)"

definition roundEven :: "rat \<Rightarrow> int" where
  "roundEven r =
     (let f = \<lfloor>r\<rfloor>; d = r - of_int f
      in if d < 1 / 2 then f else if 1 / 2 < d then f + 1 else if even f then f else f + 1)"

definition fl :: "rat \<Rightarrow> double" where
  "fl x = (if x = 0 then 0
           else let q = pow2 (binade x - 52) in of_int (roundEven (x / q)) * q)"

text \<open>
  The integer square root by Newton's iteration from above, and the square root of a
  rational rounded to the nearest double. \<^verbatim>\<open>Math.hypot\<close> is the rounded root of the exact sum
  of squares; an engine may differ from it in the last bit, and like it returns 0 on two
  zeros.
\<close>

fun isqrtIter :: "nat \<Rightarrow> int \<Rightarrow> int \<Rightarrow> int" where
  "isqrtIter 0 x n = x"
| "isqrtIter (Suc k) x n =
     (let y = (x + n div x) div 2 in if y < x then isqrtIter k y n else x)"

definition isqrt :: "int \<Rightarrow> int" where
  "isqrt n = (if n \<le> 0 then 0
              else isqrtIter (nat (bits n) + 2) (2 ^ nat ((bits n + 1) div 2)) n)"

definition sqrt64 :: "rat \<Rightarrow> double" where
  "sqrt64 r =
     (if r \<le> 0 then 0
      else let q = pow2 (binade r div 2 - 52);
               m = isqrt \<lfloor>r / (q * q)\<rfloor>;
               h = of_int (2 * m + 1) * q / 2
           in if r < h * h then of_int m * q
              else if h * h < r then of_int (m + 1) * q
              else if even m then of_int m * q else of_int (m + 1) * q)"

definition hypot64 :: "double \<Rightarrow> double \<Rightarrow> double" where
  "hypot64 x y = sqrt64 (x * x + y * y)"

text \<open>
  \<^verbatim>\<open>curvedPath\<close> in double arithmetic, operation by operation in the order JavaScript
  evaluates them: the control point (lines 193-197), one sample of the loop (line 199),
  and the loop.
\<close>

definition control64 :: "double \<times> double \<Rightarrow> double \<times> double \<Rightarrow> double \<Rightarrow> double \<times> double" where
  "control64 a b curvature =
     (let alat = fst a; alng = snd a; blat = fst b; blng = snd b;
          mid = (fl (fl (alat + blat) / 2), fl (fl (alng + blng) / 2));
          vx = fl (blat - alat); vy = fl (blng - alng);
          h = hypot64 (- vy) vx;
          plen = (if h = 0 then 1 else h);
          px = fl (- vy / plen); py = fl (vx / plen);
          d = hypot64 vx vy; k = fl (d * curvature)
      in (fl (fst mid + fl (px * k)), fl (snd mid + fl (py * k))))"

definition arcSample64 ::
  "double \<times> double \<Rightarrow> double \<times> double \<Rightarrow> double \<times> double \<Rightarrow> double \<Rightarrow> double \<times> double" where
  "arcSample64 a b ctl t =
     (let omt = fl (1 - t)
      in (fl (fl (fl (fl (omt * omt) * fst a) + fl (fl (fl (2 * omt) * t) * fst ctl))
              + fl (fl (t * t) * fst b)),
          fl (fl (fl (fl (omt * omt) * snd a) + fl (fl (fl (2 * omt) * t) * snd ctl))
              + fl (fl (t * t) * snd b))))"

definition curvedPath64 ::
  "double \<times> double \<Rightarrow> double \<times> double \<Rightarrow> nat \<Rightarrow> double \<Rightarrow> (double \<times> double) list" where
  "curvedPath64 a b segments curvature =
     map (\<lambda>i. arcSample64 a b (control64 a b curvature) (fl (of_nat i / of_nat segments)))
       [0..<segments + 1]"

text \<open>
  \<^verbatim>\<open>nearestSegmentIndex\<close> in double arithmetic, operation by operation (lines 213-223).
  \<open>vv64\<close> is the divisor \<^verbatim>\<open>vx*vx+vy*vy||1e-9\<close>: zero is the only falsy number of the model, and
  \<^verbatim>\<open>1e-9\<close> is the double nearest to that decimal. \<^verbatim>\<open>Math.max\<close> and \<^verbatim>\<open>Math.min\<close> round nothing.
\<close>

definition vv64 :: "double \<Rightarrow> double \<Rightarrow> double" where
  "vv64 vx vy =
     (let s = fl (fl (vx * vx) + fl (vy * vy)) in if s = 0 then fl (1 / 10 ^ 9) else s)"

definition segDist64 :: "double \<times> double \<Rightarrow> double \<times> double \<Rightarrow> double \<times> double \<Rightarrow> double" where
  "segDist64 a b p =
     (let ax = fst a; ay = snd a; bx = fst b; by = snd b; px = fst p; py = snd p;
          vx = fl (bx - ax); vy = fl (by - ay); wx = fl (px - ax); wy = fl (py - ay);
          vv = vv64 vx vy;
          t = max 0 (min 1 (fl (fl (fl (vx * wx) + fl (vy * wy)) / vv)));
          cx = fl (ax + fl (t * vx)); cy = fl (ay + fl (t * vy))
      in fl (fl (fl (px - cx) * fl (px - cx)) + fl (fl (py - cy) * fl (py - cy))))"

text \<open>\<^verbatim>\<open>d < bestD\<close> on doubles; \<open>None\<close> is \<^verbatim>\<open>Infinity\<close>.\<close>

fun belowBest64 :: "double \<Rightarrow> double option \<Rightarrow> bool" where
  "belowBest64 d None = True"
| "belowBest64 d (Some b) = (d < b)"

definition nearestStep64 ::
  "(double \<times> double) list \<Rightarrow> double \<times> double \<Rightarrow> nat \<Rightarrow> nat \<times> double option
     \<Rightarrow> nat \<times> double option" where
  "nearestStep64 vertices p i best =
     (let d = segDist64 (vertices ! i) (vertices ! (i + 1)) p
      in if belowBest64 d (snd best) then (i, Some d) else best)"

definition nearestSegmentIndex64 :: "(double \<times> double) list \<Rightarrow> double \<times> double \<Rightarrow> nat" where
  "nearestSegmentIndex64 vertices p =
     fst (fold (nearestStep64 vertices p) [0..<length vertices - 1] (0, None))"


section \<open>Facts about the geometry\<close>

lemma hypot_swap: "hypot (- y) x = hypot x y"
  by (simp add: hypot_def add.commute)

lemma hypot_eq_0_iff: "hypot x y = 0 \<longleftrightarrow> x = 0 \<and> y = 0"
  by (simp add: hypot_def add_nonneg_eq_0_iff)

lemma hypot_nonneg: "0 \<le> hypot x y"
  by (simp add: hypot_def)

lemma plen_pos: "0 < orElse (hypot x y) 1"
  using hypot_nonneg [of x y] by (simp add: orElse_def less_le)

lemma normal_scaled_x: "- vy / orElse (hypot (- vy) vx) 1 * (hypot vx vy * c) = - vy * c"
  by (cases "hypot vx vy = 0") (auto simp: hypot_swap orElse_def hypot_eq_0_iff)

lemma normal_scaled_y: "vx / orElse (hypot (- vy) vx) 1 * (hypot vx vy * c) = vx * c"
  by (cases "hypot vx vy = 0") (auto simp: hypot_swap orElse_def hypot_eq_0_iff)

lemma curvedPath_length: "length (curvedPath a b n c) = n + 1"
  by (simp add: curvedPath_def Let_def)

lemma curvedPath_nth:
  assumes "i \<le> n"
  shows "curvedPath a b n c ! i = arcPoint a b c (real i / real n)"
proof -
  define vx where "vx = fst b - fst a"
  define vy where "vy = snd b - snd a"
  define P where "P = orElse (hypot (- vy) vx) 1"
  define D where "D = hypot vx vy"
  define t where "t = real i / real n"
  have X: "- vy / P * (D * c) = - vy * c"
    unfolding P_def D_def by (rule normal_scaled_x)
  have Y: "vx / P * (D * c) = vx * c"
    unfolding P_def D_def by (rule normal_scaled_y)
  have i: "i < n + 1" using assms by simp
  have "curvedPath a b n c ! i =
      ((1 - t) * (1 - t) * fst a + 2 * (1 - t) * t * ((fst a + fst b) / 2 + (- vy / P * (D * c))) + t * t * fst b,
       (1 - t) * (1 - t) * snd a + 2 * (1 - t) * t * ((snd a + snd b) / 2 + (vx / P * (D * c))) + t * t * snd b)"
    unfolding curvedPath_def Let_def vx_def vy_def P_def D_def t_def
    using i by (simp only: nth_map_upt diff_zero add_0 fst_conv snd_conv)
  also have "\<dots> = arcPoint a b c t"
    unfolding X Y by (simp add: arcPoint_def vx_def vy_def field_simps)
  finally show ?thesis by (simp add: t_def)
qed


lemma curvedPath_first: "0 < n \<Longrightarrow> hd (curvedPath a b n c) = a"
  using curvedPath_nth [of 0 n a b c] curvedPath_length [of a b n c]
  by (cases "curvedPath a b n c") (simp_all add: arcPoint_def)

lemma curvedPath_last: "0 < n \<Longrightarrow> last (curvedPath a b n c) = b"
  using curvedPath_nth [of n n a b c] curvedPath_length [of a b n c]
    last_conv_nth [of "curvedPath a b n c"]
  by (cases "curvedPath a b n c = []") (simp_all add: arcPoint_def)

lemma hypot_scale: "0 \<le> c \<Longrightarrow> hypot (c * x) (c * y) = c * hypot x y"
proof -
  assume c: "0 \<le> c"
  have "c * x * (c * x) + c * y * (c * y) = c\<^sup>2 * (x * x + y * y)"
    by (simp add: power2_eq_square algebra_simps)
  then show ?thesis
    using c by (simp add: hypot_def real_sqrt_mult)
qed

lemma hypot_offset:
  assumes "0 \<le> c"
  shows "hypot (mx - c * vy - mx) (my + c * vx - my) = c * hypot vx vy"
proof -
  have "hypot (mx - c * vy - mx) (my + c * vx - my) = hypot (c * (- vy)) (c * vx)"
    by simp
  also have "\<dots> = c * hypot (- vy) vx"
    using assms by (rule hypot_scale)
  finally show ?thesis by (simp add: hypot_swap)
qed

lemma crSample_0: "crSample p0 p1 p2 p3 0 = p1"
  by (simp add: crSample_def)

lemma catmullRom_short: "length ps \<le> 2 \<Longrightarrow> catmullRomSpline ps n = ps"
  by (simp add: catmullRomSpline_def)

lemma catmullRom_last: "ps \<noteq> [] \<Longrightarrow> last (catmullRomSpline ps n) = last ps"
  by (simp add: catmullRomSpline_def Let_def)

lemma catmullRom_nonempty: "ps \<noteq> [] \<Longrightarrow> catmullRomSpline ps n \<noteq> []"
  by (simp add: catmullRomSpline_def Let_def)

lemma catmullRom_hd:
  assumes "ps \<noteq> []" and "0 < n"
  shows "hd (catmullRomSpline ps n) = hd ps"
proof (cases "length ps \<le> 2")
  case True
  then show ?thesis by (simp add: catmullRomSpline_def)
next
  case False
  define P where "P = [hd ps] @ ps @ [last ps]"
  define g where "g = (\<lambda>i j. crSample (P ! i) (P ! (i + 1)) (P ! (i + 2)) (P ! (i + 3)) (real j / real n))"
  have len: "0 < length P - 3" using False by (simp add: P_def)
  have P1: "P ! 1 = hd ps"
    using assms(1) by (cases ps) (simp_all add: P_def)
  have outer: "[0..<length P - 3] = 0 # [1..<length P - 3]"
    using len by (simp add: upt_conv_Cons)
  have inner: "[0..<n] = 0 # [1..<n]"
    using assms(2) by (simp add: upt_conv_Cons)
  have "catmullRomSpline ps n =
      concat (map (\<lambda>i. map (g i) [0..<n]) [0..<length P - 3]) @ [last ps]"
    using False by (simp add: catmullRomSpline_def Let_def P_def g_def)
  also have "\<dots> = g 0 0 # (map (g 0) [1..<n]
      @ concat (map (\<lambda>i. map (g i) [0..<n]) [1..<length P - 3]) @ [last ps])"
    by (subst outer, simp, subst inner, simp)
  finally have "hd (catmullRomSpline ps n) = g 0 0" by simp
  also have "\<dots> = hd ps"
    using P1 by (simp add: g_def crSample_0)
  finally show ?thesis .
qed



subsection \<open>The arc in double arithmetic\<close>

lemma fl_0: "fl 0 = 0"
  by (simp add: fl_def)

lemma fl_1: "fl 1 = 1"
  by code_simp

lemma fl_2: "fl 2 = 2"
  by code_simp

text \<open>The rounded square root on two known values: the root of 2, and the 3-4-5 triangle.\<close>

lemma sqrt64_values:
  "sqrt64 2 = 6369051672525773 / 4503599627370496 \<and> hypot64 3 4 = 5 \<and> hypot64 0 0 = 0"
  by code_simp

lemma curvedPath64_length: "length (curvedPath64 a b n c) = n + 1"
  by (simp add: curvedPath64_def)

text \<open>
  At \<open>t = 0\<close> and at \<open>t = 1\<close> every product with the other endpoint and with the control
  point is a product with zero, so the sample is the endpoint itself, bit for bit.
\<close>

lemma arcSample64_0:
  assumes "fl (fst a) = fst a" and "fl (snd a) = snd a"
  shows "arcSample64 a b ctl 0 = a"
  using assms by (simp add: arcSample64_def fl_0 fl_1 fl_2 prod_eq_iff)

lemma arcSample64_1:
  assumes "fl (fst b) = fst b" and "fl (snd b) = snd b"
  shows "arcSample64 a b ctl 1 = b"
  using assms by (simp add: arcSample64_def fl_0 fl_1 fl_2 prod_eq_iff)

lemma curvedPath64_first:
  assumes "fl (fst a) = fst a" and "fl (snd a) = snd a"
  shows "hd (curvedPath64 a b n c) = a"
proof -
  have "[0..<n + 1] = 0 # [1..<n + 1]"
    by (simp add: upt_conv_Cons del: upt_Suc)
  then show ?thesis
    unfolding curvedPath64_def using assms by (simp add: arcSample64_0 fl_0 del: upt_Suc)
qed

lemma curvedPath64_last:
  assumes "0 < n" and "fl (fst b) = fst b" and "fl (snd b) = snd b"
  shows "last (curvedPath64 a b n c) = b"
  unfolding curvedPath64_def using assms by (simp add: arcSample64_1 fl_1)

lemma curvedPath64_nth:
  assumes "i \<le> n"
  shows "curvedPath64 a b n c ! i
       = arcSample64 a b (control64 a b c) (fl (of_nat i / of_nat n))"
proof -
  have "i < n + 1 - 0" using assms by simp
  from nth_map_upt [OF this] show ?thesis
    unfolding curvedPath64_def by (simp only: add.left_neutral)
qed

section \<open>Straight links\<close>

text \<open>
  C1. For two existing devices and a link between them whose style is straight, the
  render path is exactly the two endpoints, source first.
\<close>

theorem straight_render_path:
  assumes "findDevice devs (source l) = Some a"
    and "findDevice devs (target l) = Some b"
    and "style l = Straight"
  shows "computeRenderPath devs l = Some [latlng a, latlng b]"
  using assms by (simp add: computeRenderPath_def)

text \<open>The sample link from Bangkok to Tokyo renders as its two endpoints.\<close>

theorem straight_render_path_witness:
  "findDevice sampleDevices (source (sampleLinks ! 0)) = Some (sampleDevices ! 0)
   \<and> findDevice sampleDevices (target (sampleLinks ! 0)) = Some (sampleDevices ! 1)
   \<and> style (sampleLinks ! 0) = Straight
   \<and> computeRenderPath sampleDevices (sampleLinks ! 0) = Some [(13.7563, 100.5018), (35.6895, 139.6917)]"
proof -
  have a: "findDevice sampleDevices (source (sampleLinks ! 0)) = Some (sampleDevices ! 0)"
    by (simp add: findDevice_def sampleDevices_def sampleLinks_def)
  have b: "findDevice sampleDevices (target (sampleLinks ! 0)) = Some (sampleDevices ! 1)"
    by (simp add: findDevice_def sampleDevices_def sampleLinks_def)
  have s: "style (sampleLinks ! 0) = Straight"
    by (simp add: sampleLinks_def)
  show ?thesis
    using a b s straight_render_path [OF a b s]
    by (simp add: latlng_def sampleDevices_def)
qed


section \<open>Curved links\<close>

text \<open>
  C2. For two existing devices and a curved link between them, the render path has 29
  points, starts at the source and ends at the target exactly. Its middle sample (index 14,
  parameter 14/28 = 0.5) is the midpoint of the chord moved by 0.14 times the left normal
  \<open>(- vy, vx)\<close> of the chord; when the endpoints differ, that displacement is perpendicular
  to the chord, has length \<open>|B - A| * 0.28 / 2\<close>, and this length is positive. In double
  arithmetic too the arc has 29 points and its first and last point are the endpoints, bit
  for bit.
\<close>

theorem curved_render_path:
  assumes a: "findDevice devs (source l) = Some a"
    and b: "findDevice devs (target l) = Some b"
    and s: "style l = Curved"
  shows "(\<exists>ps. computeRenderPath devs l = Some ps \<and> length ps = 29
           \<and> hd ps = latlng a \<and> last ps = latlng b
           \<and> (let A = latlng a; B = latlng b;
                   vx = fst B - fst A; vy = snd B - snd A;
                   mx = (fst A + fst B) / 2; my = (snd A + snd B) / 2;
                   S = ps ! 14
               in S = (mx - 0.14 * vy, my + 0.14 * vx)
                  \<and> (A \<noteq> B \<longrightarrow>
                        (fst S - mx) * vx + (snd S - my) * vy = 0
                      \<and> hypot (fst S - mx) (snd S - my) = hypot vx vy * 0.28 / 2
                      \<and> 0 < hypot vx vy * 0.28 / 2)))
       \<and> (\<forall>A B c. fl (fst A) = fst A \<and> fl (snd A) = snd A
                \<and> fl (fst B) = fst B \<and> fl (snd B) = snd B \<longrightarrow>
              length (curvedPath64 A B 28 c) = 29
            \<and> hd (curvedPath64 A B 28 c) = A \<and> last (curvedPath64 A B 28 c) = B)"
proof -
  let ?A = "latlng a" and ?B = "latlng b"
  let ?ps = "curvedPath ?A ?B 28 0.28"
  let ?vx = "fst ?B - fst ?A" and ?vy = "snd ?B - snd ?A"
  let ?mx = "(fst ?A + fst ?B) / 2" and ?my = "(snd ?A + snd ?B) / 2"
  have path: "computeRenderPath devs l = Some ?ps"
    using a b s by (simp add: computeRenderPath_def)
  have len: "length ?ps = 29" by (simp add: curvedPath_length)
  have first: "hd ?ps = ?A" by (simp add: curvedPath_first)
  have last: "last ?ps = ?B" by (simp add: curvedPath_last)
  have "?ps ! 14 = arcPoint ?A ?B 0.28 (real 14 / real 28)"
    by (rule curvedPath_nth) simp
  then have mid: "?ps ! 14 = (?mx - 0.14 * ?vy, ?my + 0.14 * ?vx)"
    by (simp add: arcPoint_def field_simps)
  have perp: "(fst (?ps ! 14) - ?mx) * ?vx + (snd (?ps ! 14) - ?my) * ?vy = 0"
    unfolding mid by (simp add: algebra_simps)
  have norm: "hypot (fst (?ps ! 14) - ?mx) (snd (?ps ! 14) - ?my) = hypot ?vx ?vy * 0.28 / 2"
  proof -
    have "hypot (?mx - 0.14 * ?vy - ?mx) (?my + 0.14 * ?vx - ?my) = 0.14 * hypot ?vx ?vy"
      by (rule hypot_offset) simp
    then show ?thesis unfolding mid fst_conv snd_conv by simp
  qed
  have pos: "0 < hypot ?vx ?vy * 0.28 / 2" if "?A \<noteq> ?B"
  proof -
    have "hypot ?vx ?vy \<noteq> 0"
      using that by (auto simp: hypot_eq_0_iff prod_eq_iff)
    then show ?thesis using hypot_nonneg [of ?vx ?vy] by simp
  qed
  have real: "\<exists>ps. computeRenderPath devs l = Some ps \<and> length ps = 29
           \<and> hd ps = latlng a \<and> last ps = latlng b
           \<and> (let A = latlng a; B = latlng b;
                   vx = fst B - fst A; vy = snd B - snd A;
                   mx = (fst A + fst B) / 2; my = (snd A + snd B) / 2;
                   S = ps ! 14
               in S = (mx - 0.14 * vy, my + 0.14 * vx)
                  \<and> (A \<noteq> B \<longrightarrow>
                        (fst S - mx) * vx + (snd S - my) * vy = 0
                      \<and> hypot (fst S - mx) (snd S - my) = hypot vx vy * 0.28 / 2
                      \<and> 0 < hypot vx vy * 0.28 / 2))"
    unfolding Let_def
    using path len first last mid perp norm pos by (intro exI [of _ ?ps] conjI impI)
  have dbl: "\<forall>A B c. fl (fst A) = fst A \<and> fl (snd A) = snd A
                \<and> fl (fst B) = fst B \<and> fl (snd B) = snd B \<longrightarrow>
              length (curvedPath64 A B 28 c) = 29
            \<and> hd (curvedPath64 A B 28 c) = A \<and> last (curvedPath64 A B 28 c) = B"
    by (simp add: curvedPath64_length curvedPath64_first curvedPath64_last)
  show ?thesis
    using real dbl by (rule conjI)
qed

text \<open>
  The sample link from Tokyo to Paris: 29 points from Tokyo to Paris, bowed at the middle;
  and the arc between the doubles of the four coordinate literals starts and ends at them.
\<close>

theorem curved_render_path_witness:
  "findDevice sampleDevices (source (sampleLinks ! 1)) = Some (sampleDevices ! 1)
   \<and> findDevice sampleDevices (target (sampleLinks ! 1)) = Some (sampleDevices ! 2)
   \<and> style (sampleLinks ! 1) = Curved
   \<and> latlng (sampleDevices ! 1) \<noteq> latlng (sampleDevices ! 2)
   \<and> (\<exists>ps. computeRenderPath sampleDevices (sampleLinks ! 1) = Some ps \<and> length ps = 29
          \<and> hd ps = (35.6895, 139.6917) \<and> last ps = (48.8566, 2.3522)
          \<and> ps ! 14 = ((35.6895 + 48.8566) / 2 - 0.14 * (2.3522 - 139.6917),
                        (139.6917 + 2.3522) / 2 + 0.14 * (48.8566 - 35.6895)))
   \<and> fl (356895 / 10000) = 5022850590657479 / 140737488355328
   \<and> fl (1396917 / 10000) = 4914964750521493 / 35184372088832
   \<and> fl (488566 / 10000) = 3437977586790459 / 70368744177664
   \<and> fl (23522 / 10000) = 662085440218805 / 281474976710656
   \<and> hd (curvedPath64 (5022850590657479 / 140737488355328, 4914964750521493 / 35184372088832)
          (3437977586790459 / 70368744177664, 662085440218805 / 281474976710656) 28
          (fl (28 / 100)))
     = (5022850590657479 / 140737488355328, 4914964750521493 / 35184372088832)
   \<and> last (curvedPath64 (5022850590657479 / 140737488355328, 4914964750521493 / 35184372088832)
          (3437977586790459 / 70368744177664, 662085440218805 / 281474976710656) 28
          (fl (28 / 100)))
     = (3437977586790459 / 70368744177664, 662085440218805 / 281474976710656)"
proof -
  have a: "findDevice sampleDevices (source (sampleLinks ! 1)) = Some (sampleDevices ! 1)"
    by (simp add: findDevice_def sampleDevices_def sampleLinks_def)
  have b: "findDevice sampleDevices (target (sampleLinks ! 1)) = Some (sampleDevices ! 2)"
    by (simp add: findDevice_def sampleDevices_def sampleLinks_def)
  have s: "style (sampleLinks ! 1) = Curved"
    by (simp add: sampleLinks_def)
  have ne: "latlng (sampleDevices ! 1) \<noteq> latlng (sampleDevices ! 2)"
    by (simp add: latlng_def sampleDevices_def)
  have A: "latlng (sampleDevices ! 1) = (35.6895, 139.6917)"
    and B: "latlng (sampleDevices ! 2) = (48.8566, 2.3522)"
    by (simp_all add: latlng_def sampleDevices_def)
  let ?T = "(5022850590657479 / 140737488355328, 4914964750521493 / 35184372088832)
    :: double \<times> double"
  let ?P = "(3437977586790459 / 70368744177664, 662085440218805 / 281474976710656)
    :: double \<times> double"
  have lit: "fl (356895 / 10000) = 5022850590657479 / 140737488355328"
    "fl (1396917 / 10000) = 4914964750521493 / 35184372088832"
    "fl (488566 / 10000) = 3437977586790459 / 70368744177664"
    "fl (23522 / 10000) = 662085440218805 / 281474976710656"
    by code_simp+
  have rep: "fl (5022850590657479 / 140737488355328) = 5022850590657479 / 140737488355328"
    "fl (4914964750521493 / 35184372088832) = 4914964750521493 / 35184372088832"
    "fl (3437977586790459 / 70368744177664) = 3437977586790459 / 70368744177664"
    "fl (662085440218805 / 281474976710656) = 662085440218805 / 281474976710656"
    by code_simp+
  note inst = curved_render_path [OF a b s]
  have real: "\<exists>ps. computeRenderPath sampleDevices (sampleLinks ! 1) = Some ps \<and> length ps = 29
          \<and> hd ps = (35.6895, 139.6917) \<and> last ps = (48.8566, 2.3522)
          \<and> ps ! 14 = ((35.6895 + 48.8566) / 2 - 0.14 * (2.3522 - 139.6917),
                        (139.6917 + 2.3522) / 2 + 0.14 * (48.8566 - 35.6895))"
    using inst [THEN conjunct1] unfolding Let_def A B fst_conv snd_conv by blast
  have "fl (fst ?T) = fst ?T \<and> fl (snd ?T) = snd ?T
      \<and> fl (fst ?P) = fst ?P \<and> fl (snd ?P) = snd ?P \<longrightarrow>
        length (curvedPath64 ?T ?P 28 (fl (28 / 100))) = 29
      \<and> hd (curvedPath64 ?T ?P 28 (fl (28 / 100))) = ?T
      \<and> last (curvedPath64 ?T ?P 28 (fl (28 / 100))) = ?P"
    using inst [THEN conjunct2] by blast
  then have ends: "hd (curvedPath64 ?T ?P 28 (fl (28 / 100))) = ?T"
    "last (curvedPath64 ?T ?P 28 (fl (28 / 100))) = ?P"
    using rep by (simp_all only: fst_conv snd_conv simp_thms)
  show ?thesis
    using a b s ne real lit ends by (intro conjI)
qed

section \<open>Custom links\<close>

text \<open>
  C3. For two existing devices and a custom link between them: when \<open>curvy\<close> is not true
  (false or unset) the render path is exactly the control points, the source, the waypoints
  in order and the target; when \<open>curvy\<close> is true the render path starts at the source and
  ends at the target exactly, and with at most two control points it is the control points
  themselves.
\<close>

theorem custom_render_path:
  assumes a: "findDevice devs (source l) = Some a"
    and b: "findDevice devs (target l) = Some b"
    and s: "style l = Custom"
  shows "(curvy l \<noteq> Some True \<longrightarrow>
            computeRenderPath devs l = Some ([latlng a] @ waypointsOrEmpty l @ [latlng b]))
       \<and> (curvy l = Some True \<longrightarrow>
            (\<exists>ps. computeRenderPath devs l = Some ps \<and> ps \<noteq> []
               \<and> hd ps = latlng a \<and> last ps = latlng b
               \<and> (length ([latlng a] @ waypointsOrEmpty l @ [latlng b]) \<le> 2 \<longrightarrow>
                     ps = [latlng a] @ waypointsOrEmpty l @ [latlng b])))"
proof (intro conjI impI)
  assume "curvy l \<noteq> Some True"
  then show "computeRenderPath devs l = Some ([latlng a] @ waypointsOrEmpty l @ [latlng b])"
    using a b s by (simp add: computeRenderPath_def)
next
  assume c: "curvy l = Some True"
  let ?ctrl = "[latlng a] @ waypointsOrEmpty l @ [latlng b]"
  let ?ps = "catmullRomSpline ?ctrl 14"
  have path: "computeRenderPath devs l = Some ?ps"
    using a b s c by (simp add: computeRenderPath_def)
  have ne: "?ps \<noteq> []" by (rule catmullRom_nonempty) simp
  have first: "hd ?ps = latlng a"
    using catmullRom_hd [of ?ctrl 14] by simp
  have last: "last ?ps = latlng b"
    using catmullRom_last [of ?ctrl 14] by simp
  have short: "?ps = ?ctrl" if "length ?ctrl \<le> 2"
    using that by (rule catmullRom_short)
  show "\<exists>ps. computeRenderPath devs l = Some ps \<and> ps \<noteq> []
               \<and> hd ps = latlng a \<and> last ps = latlng b
               \<and> (length ([latlng a] @ waypointsOrEmpty l @ [latlng b]) \<le> 2 \<longrightarrow>
                     ps = [latlng a] @ waypointsOrEmpty l @ [latlng b])"
    using path ne first last short by (intro exI [of _ ?ps] conjI impI)
qed


text \<open>
  The sample link from Paris to New York with its waypoint, the same link made curvy, and a
  curvy link without waypoints.
\<close>

theorem custom_render_path_witness:
  "findDevice sampleDevices ''c'' = Some (sampleDevices ! 2)
   \<and> findDevice sampleDevices ''d'' = Some (sampleDevices ! 3)
   \<and> computeRenderPath sampleDevices (sampleLinks ! 3)
       = Some [(48.8566, 2.3522), (45, 10), (40.7128, - 74.006)]
   \<and> (\<exists>ps. computeRenderPath sampleDevices ((sampleLinks ! 3)\<lparr>curvy := Some True\<rparr>) = Some ps
          \<and> ps \<noteq> [] \<and> hd ps = (48.8566, 2.3522) \<and> last ps = (40.7128, - 74.006))
   \<and> computeRenderPath sampleDevices
        \<lparr>source = ''c'', target = ''d'', style = Custom, waypoints = Some [], curvy = Some True\<rparr>
       = Some [(48.8566, 2.3522), (40.7128, - 74.006)]"
proof -
  let ?l1 = "sampleLinks ! 3"
  let ?l2 = "(sampleLinks ! 3)\<lparr>curvy := Some True\<rparr>"
  let ?l3 = "\<lparr>source = ''c'', target = ''d'', style = Custom, waypoints = Some [],
               curvy = Some True\<rparr>"
  have c: "findDevice sampleDevices ''c'' = Some (sampleDevices ! 2)"
    and d: "findDevice sampleDevices ''d'' = Some (sampleDevices ! 3)"
    by (simp_all add: findDevice_def sampleDevices_def)
  have C: "latlng (sampleDevices ! 2) = (48.8566, 2.3522)"
    and D: "latlng (sampleDevices ! 3) = (40.7128, - 74.006)"
    by (simp_all add: latlng_def sampleDevices_def)
  have l1: "source ?l1 = ''c''" "target ?l1 = ''d''" "style ?l1 = Custom"
      "curvy ?l1 \<noteq> Some True" "waypointsOrEmpty ?l1 = [(45, 10)]"
    by (simp_all add: sampleLinks_def waypointsOrEmpty_def)
  have l2: "source ?l2 = ''c''" "target ?l2 = ''d''" "style ?l2 = Custom"
      "curvy ?l2 = Some True"
    by (simp_all add: sampleLinks_def)
  have l3: "source ?l3 = ''c''" "target ?l3 = ''d''" "style ?l3 = Custom"
      "curvy ?l3 = Some True" "waypointsOrEmpty ?l3 = []"
    by (simp_all add: waypointsOrEmpty_def)
  have "computeRenderPath sampleDevices ?l1
       = Some ([latlng (sampleDevices ! 2)] @ waypointsOrEmpty ?l1 @ [latlng (sampleDevices ! 3)])"
    using custom_render_path [of sampleDevices ?l1 "sampleDevices ! 2" "sampleDevices ! 3"]
      c d l1 by simp
  then have r1: "computeRenderPath sampleDevices ?l1
       = Some [(48.8566, 2.3522), (45, 10), (40.7128, - 74.006)]"
    unfolding l1 C D by simp
  have "\<exists>ps. computeRenderPath sampleDevices ?l2 = Some ps
          \<and> ps \<noteq> [] \<and> hd ps = latlng (sampleDevices ! 2) \<and> last ps = latlng (sampleDevices ! 3)"
    using custom_render_path [of sampleDevices ?l2 "sampleDevices ! 2" "sampleDevices ! 3"]
      c d l2 by auto
  then have r2: "\<exists>ps. computeRenderPath sampleDevices ?l2 = Some ps
          \<and> ps \<noteq> [] \<and> hd ps = (48.8566, 2.3522) \<and> last ps = (40.7128, - 74.006)"
    unfolding C D .
  have "computeRenderPath sampleDevices ?l3
       = Some ([latlng (sampleDevices ! 2)] @ waypointsOrEmpty ?l3 @ [latlng (sampleDevices ! 3)])"
    using custom_render_path [of sampleDevices ?l3 "sampleDevices ! 2" "sampleDevices ! 3"]
      c d l3 by auto
  then have r3: "computeRenderPath sampleDevices ?l3
       = Some [(48.8566, 2.3522), (40.7128, - 74.006)]"
    unfolding l3 C D by simp
  show ?thesis using c d r1 r2 r3 by (intro conjI)
qed

section \<open>Hit testing\<close>

text \<open>
  In exact arithmetic the distance of the loop is the distance to the segment: it is the
  squared distance from \<open>p\<close> to a point of the segment from \<open>a\<close> to \<open>b\<close>, and no point of
  the segment is nearer to \<open>p\<close>.
\<close>

lemma segDist_clamped:
  "segDist a b p =
     (let vx = fst b - fst a; vy = snd b - snd a; wx = fst p - fst a; wy = snd p - snd a;
          u = max 0 (min 1 ((vx * wx + vy * wy) / orElse (vx * vx + vy * vy) (1 / 10 ^ 9)))
      in (wx - u * vx) * (wx - u * vx) + (wy - u * vy) * (wy - u * vy))"
  by (simp add: segDist_def Let_def algebra_simps)

lemma segDist_attained:
  "\<exists>u. 0 \<le> u \<and> u \<le> 1
       \<and> segDist a b p
         = (fst p - (fst a + u * (fst b - fst a))) * (fst p - (fst a + u * (fst b - fst a)))
           + (snd p - (snd a + u * (snd b - snd a))) * (snd p - (snd a + u * (snd b - snd a)))"
proof -
  let ?u = "max 0 (min 1 (((fst b - fst a) * (fst p - fst a) + (snd b - snd a) * (snd p - snd a))
              / orElse ((fst b - fst a) * (fst b - fst a) + (snd b - snd a) * (snd b - snd a))
                  (1 / 10 ^ 9)))"
  have "0 \<le> ?u" and "?u \<le> 1" by simp_all
  moreover have "segDist a b p
         = (fst p - (fst a + ?u * (fst b - fst a))) * (fst p - (fst a + ?u * (fst b - fst a)))
           + (snd p - (snd a + ?u * (snd b - snd a))) * (snd p - (snd a + ?u * (snd b - snd a)))"
    by (simp add: segDist_def Let_def)
  ultimately show ?thesis by blast
qed

lemma quadratic_clamped_least:
  fixes n s t :: real
  assumes n: "0 < n" and t: "0 \<le> t" "t \<le> 1"
  defines "u \<equiv> max 0 (min 1 (s / n))"
  shows "u * u * n - 2 * u * s \<le> t * t * n - 2 * t * s"
proof -
  have diff: "(t * t * n - 2 * t * s) - (u * u * n - 2 * u * s) = (t - u) * (n * (t + u) - 2 * s)"
    by (simp add: algebra_simps)
  have "0 \<le> (t - u) * (n * (t + u) - 2 * s)"
  proof -
    consider "s \<le> 0" | "n \<le> s" | "0 < s" "s < n" by linarith
    then show ?thesis
    proof cases
      case 1
      then have "s / n \<le> 0" using n by (simp add: divide_le_0_iff)
      then have u: "u = 0" by (simp add: u_def)
      have "0 \<le> n * t" using n t by simp
      then have "0 \<le> t * (n * t - 2 * s)"
        using t 1 by (intro mult_nonneg_nonneg) simp_all
      then show ?thesis by (simp add: u)
    next
      case 2
      then have "1 \<le> s / n" using n by simp
      then have u: "u = 1" by (simp add: u_def)
      have "n * (t + 1) \<le> n * 2" using n t by simp
      then have "n * (t + 1) - 2 * s \<le> 0" using 2 by linarith
      then have "0 \<le> (t - 1) * (n * (t + 1) - 2 * s)"
        using t by (intro mult_nonpos_nonpos) simp_all
      then show ?thesis by (simp add: u)
    next
      case 3
      then have "0 < s / n" "s / n < 1" using n by simp_all
      then have u: "u = s / n" by (simp add: u_def)
      have "n * (t + u) - 2 * s = n * (t - u)"
        using n by (simp add: u algebra_simps)
      then have eq: "(t - u) * (n * (t + u) - 2 * s) = n * ((t - u) * (t - u))"
        by (simp only: mult.left_commute)
      have sq: "0 \<le> (t - u) * (t - u)"
        by (rule zero_le_square)
      have "0 \<le> n" using n by simp
      from this sq have "0 \<le> n * ((t - u) * (t - u))"
        by (rule mult_nonneg_nonneg)
      then show ?thesis unfolding eq .
    qed
  qed
  then show ?thesis using diff by linarith
qed

lemma segDist_least:
  assumes "0 \<le> t" and "t \<le> 1"
  shows "segDist a b p
       \<le> (fst p - (fst a + t * (fst b - fst a))) * (fst p - (fst a + t * (fst b - fst a)))
         + (snd p - (snd a + t * (snd b - snd a))) * (snd p - (snd a + t * (snd b - snd a)))"
proof -
  define vx vy wx wy where "vx = fst b - fst a" and "vy = snd b - snd a"
    and "wx = fst p - fst a" and "wy = snd p - snd a"
  define n s where "n = vx * vx + vy * vy" and "s = vx * wx + vy * wy"
  define u where "u = max 0 (min 1 (s / orElse n (1 / 10 ^ 9)))"
  have sd: "segDist a b p = (wx - u * vx) * (wx - u * vx) + (wy - u * vy) * (wy - u * vy)"
    unfolding segDist_clamped Let_def u_def n_def s_def vx_def vy_def wx_def wy_def ..
  have lhs: "(wx - u * vx) * (wx - u * vx) + (wy - u * vy) * (wy - u * vy)
      = wx * wx + wy * wy + (u * u * n - 2 * u * s)"
    by (simp add: n_def s_def algebra_simps)
  have rhs: "(fst p - (fst a + t * (fst b - fst a))) * (fst p - (fst a + t * (fst b - fst a)))
         + (snd p - (snd a + t * (snd b - snd a))) * (snd p - (snd a + t * (snd b - snd a)))
      = wx * wx + wy * wy + (t * t * n - 2 * t * s)"
    by (simp add: n_def s_def vx_def vy_def wx_def wy_def algebra_simps)
  have "u * u * n - 2 * u * s \<le> t * t * n - 2 * t * s"
  proof (cases "n = 0")
    case True
    then have "vx = 0 \<and> vy = 0"
      by (simp add: n_def)
    then have "s = 0" by (simp add: s_def)
    then show ?thesis using True by simp
  next
    case False
    have "0 \<le> n" by (simp add: n_def)
    then have n: "0 < n" using False by simp
    have "u = max 0 (min 1 (s / n))"
      using False by (simp add: u_def orElse_def)
    then show ?thesis
      using quadratic_clamped_least [OF n assms, of s] by simp
  qed
  then show ?thesis unfolding sd lhs rhs by simp
qed

text \<open>
  After \<open>m\<close> rounds, \<open>m\<close> at least one, the loop of \<open>nearestSegmentIndex\<close> in exact
  arithmetic holds the first index among the first \<open>m\<close> segments whose distance is least,
  and that distance.
\<close>

lemma nearest_loop_invariant:
  assumes "0 < m"
  shows "\<exists>i. fold (nearestStep vs p) [0..<m] (0, None)
             = (i, Some (segDist (vs ! i) (vs ! (i + 1)) p))
           \<and> i < m
           \<and> (\<forall>j<m. segDist (vs ! i) (vs ! (i + 1)) p \<le> segDist (vs ! j) (vs ! (j + 1)) p)
           \<and> (\<forall>j<i. segDist (vs ! i) (vs ! (i + 1)) p < segDist (vs ! j) (vs ! (j + 1)) p)"
  using assms
proof (induction m)
  case 0
  then show ?case by simp
next
  case (Suc m)
  let ?D = "\<lambda>j. segDist (vs ! j) (vs ! (j + 1)) p"
  show ?case
  proof (cases "m = 0")
    case True
    then show ?thesis by (simp add: nearestStep_def)
  next
    case False
    then obtain i where st: "fold (nearestStep vs p) [0..<m] (0, None) = (i, Some (?D i))"
      and i: "i < m"
      and least: "\<forall>j<m. ?D i \<le> ?D j"
      and first: "\<forall>j<i. ?D i < ?D j"
      using Suc.IH by auto
    have step: "fold (nearestStep vs p) [0..<Suc m] (0, None)
        = (if ?D m < ?D i then (m, Some (?D m)) else (i, Some (?D i)))"
      by (simp add: st nearestStep_def)
    show ?thesis
    proof (cases "?D m < ?D i")
      case True
      have "\<forall>j<Suc m. ?D m \<le> ?D j"
        using True least by (auto simp: less_Suc_eq intro: order.trans less_imp_le)
      moreover have "\<forall>j<m. ?D m < ?D j"
        using True least by (auto intro: less_le_trans)
      ultimately show ?thesis
        using True step by (intro exI [of _ m]) simp
    next
      case False
      have "\<forall>j<Suc m. ?D i \<le> ?D j"
        using False least by (auto simp: less_Suc_eq)
      then show ?thesis
        using False step i first by (intro exI [of _ i]) simp
    qed
  qed
qed

lemma nearest_example: "nearestSegmentIndex [(0, 0), (0, 10), (0, 20)] (0, 15) = 1"
  by (simp add: nearestSegmentIndex_def nearestStep_def segDist_def orElse_def upt_rec Let_def)


text \<open>
  In exact arithmetic, on a vertex list of at least two points, \<open>nearestSegmentIndex\<close>
  returns the index of a segment whose distance is at most that of every segment and
  strictly below that of every segment with a lower index.
\<close>

lemma nearestSegmentIndex_exact:
  assumes "2 \<le> length vertices"
  shows "(let i = nearestSegmentIndex vertices p;
              D = (\<lambda>j. segDist (vertices ! j) (vertices ! (j + 1)) p)
          in i < length vertices - 1
             \<and> (\<forall>j<length vertices - 1. D i \<le> D j)
             \<and> (\<forall>j<i. D i < D j))"
proof -
  have "0 < length vertices - 1" using assms by simp
  from nearest_loop_invariant [OF this, of vertices p]
  show ?thesis
    unfolding Let_def nearestSegmentIndex_def [of vertices p]
    by auto
qed

subsection \<open>Hit testing in double arithmetic\<close>

text \<open>Rounding keeps the sign, so the divisor of the projection is positive.\<close>

lemma pow2_pos: "0 < pow2 e"
  by (simp add: pow2_def)

lemma roundEven_nonneg: "0 \<le> r \<Longrightarrow> 0 \<le> roundEven r"
  by (simp add: roundEven_def Let_def)

lemma fl_nonneg:
  assumes "0 \<le> x"
  shows "0 \<le> fl x"
proof (cases "x = 0")
  case True
  then show ?thesis by (simp add: fl_def)
next
  case False
  let ?q = "pow2 (binade x - 52)"
  have q: "0 < ?q" by (rule pow2_pos)
  have "0 \<le> x / ?q" using assms q by simp
  then have "0 \<le> roundEven (x / ?q)" by (rule roundEven_nonneg)
  then have "0 \<le> (of_int (roundEven (x / ?q)) :: rat) * ?q"
    using q by simp
  then show ?thesis using False by (simp add: fl_def Let_def)
qed

lemma tiny_double: "fl (1 / 10 ^ 9) = 4835703278458517 / 4835703278458516698824704"
  by code_simp

lemma vv64_pos: "0 < vv64 vx vy"
proof -
  let ?s = "fl (fl (vx * vx) + fl (vy * vy))"
  have "0 \<le> fl (vx * vx)" and "0 \<le> fl (vy * vy)"
    by (rule fl_nonneg, simp)+
  then have "0 \<le> fl (vx * vx) + fl (vy * vy)" by simp
  then have s: "0 \<le> ?s" by (rule fl_nonneg)
  have tiny: "(0 :: rat) < fl (1 / 10 ^ 9)"
    unfolding tiny_double by simp
  show ?thesis
  proof (cases "?s = 0")
    case True
    have "vv64 vx vy = fl (1 / 10 ^ 9)"
      unfolding vv64_def Let_def by (rule if_P [OF True])
    then show ?thesis using tiny by (simp only:)
  next
    case False
    then show ?thesis using s by (simp add: vv64_def Let_def)
  qed
qed

text \<open>
  After \<open>m\<close> rounds, \<open>m\<close> at least one, the loop holds the first index among the first \<open>m\<close>
  segments whose computed distance is least, and that computed distance.
\<close>

lemma nearest64_loop_invariant:
  assumes "0 < m"
  shows "\<exists>i. fold (nearestStep64 vs p) [0..<m] (0, None)
             = (i, Some (segDist64 (vs ! i) (vs ! (i + 1)) p))
           \<and> i < m
           \<and> (\<forall>j<m. segDist64 (vs ! i) (vs ! (i + 1)) p \<le> segDist64 (vs ! j) (vs ! (j + 1)) p)
           \<and> (\<forall>j<i. segDist64 (vs ! i) (vs ! (i + 1)) p < segDist64 (vs ! j) (vs ! (j + 1)) p)"
  using assms
proof (induction m)
  case 0
  then show ?case by simp
next
  case (Suc m)
  let ?D = "\<lambda>j. segDist64 (vs ! j) (vs ! (j + 1)) p"
  show ?case
  proof (cases "m = 0")
    case True
    then show ?thesis by (simp add: nearestStep64_def)
  next
    case False
    then obtain i where st: "fold (nearestStep64 vs p) [0..<m] (0, None) = (i, Some (?D i))"
      and i: "i < m"
      and least: "\<forall>j<m. ?D i \<le> ?D j"
      and first: "\<forall>j<i. ?D i < ?D j"
      using Suc.IH by auto
    have step: "fold (nearestStep64 vs p) [0..<Suc m] (0, None)
        = (if ?D m < ?D i then (m, Some (?D m)) else (i, Some (?D i)))"
      by (simp add: st nearestStep64_def)
    show ?thesis
    proof (cases "?D m < ?D i")
      case True
      have "\<forall>j<Suc m. ?D m \<le> ?D j"
        using True least by (auto simp: less_Suc_eq intro: order.trans less_imp_le)
      moreover have "\<forall>j<m. ?D m < ?D j"
        using True least by (auto intro: less_le_trans)
      ultimately show ?thesis
        using True step by (intro exI [of _ m]) simp
    next
      case False
      have "\<forall>j<Suc m. ?D i \<le> ?D j"
        using False least by (auto simp: less_Suc_eq)
      then show ?thesis
        using False step i first by (intro exI [of _ i]) simp
    qed
  qed
qed

text \<open>
  The distances the program computes on the example: 25 for the first segment and 0 for the
  second, as in exact arithmetic.
\<close>

lemma example_distances64:
  "segDist64 (0, 0) (0, 10) (0, 15) = 25"
  "segDist64 (0, 10) (0, 20) (0, 15) = 0"
  by code_simp+

lemma nearest64_example: "nearestSegmentIndex64 [(0, 0), (0, 10), (0, 20)] (0, 15) = 1"
  by (simp add: nearestSegmentIndex64_def nearestStep64_def example_distances64 upt_rec)

text \<open>
  C4, amended. On a vertex list of at least two points, \<open>nearestSegmentIndex\<close> as the
  program evaluates it, in double arithmetic, returns the index of a segment; the distance
  computed for that segment, the squared distance from the point to its clamped projection
  with a rounding after every operation, is at most the distance computed for every segment
  and strictly below the distance computed for every segment with a lower index. On
  \<open>[(0,0), (0,10), (0,20)]\<close> and the point \<open>(0,15)\<close> it returns 1.
\<close>

theorem nearestSegmentIndex64_minimal:
  assumes "2 \<le> length vertices"
  shows "(let i = nearestSegmentIndex64 vertices p;
              D = (\<lambda>j. segDist64 (vertices ! j) (vertices ! (j + 1)) p)
          in i < length vertices - 1
             \<and> (\<forall>j<length vertices - 1. D i \<le> D j)
             \<and> (\<forall>j<i. D i < D j))
       \<and> nearestSegmentIndex64 [(0, 0), (0, 10), (0, 20)] (0, 15) = 1"
proof -
  have "0 < length vertices - 1" using assms by simp
  from nearest64_loop_invariant [OF this, of vertices p]
  show ?thesis
    unfolding Let_def nearestSegmentIndex64_def [of vertices p]
    using nearest64_example by auto
qed

text \<open>
  On the list of the example the program computes the squared distance 25 for the first
  segment and 0 for the second, so the index it returns is below 2 and its computed
  distance is at most 0.
\<close>

theorem nearestSegmentIndex64_minimal_witness:
  "2 \<le> length [(0, 0), (0, 10), (0, 20 :: double)]
   \<and> segDist64 (0, 0) (0, 10) (0, 15) = 25
   \<and> segDist64 (0, 10) (0, 20) (0, 15) = 0
   \<and> nearestSegmentIndex64 [(0, 0), (0, 10), (0, 20)] (0, 15) < 2
   \<and> segDist64 ([(0, 0), (0, 10), (0, 20)] ! nearestSegmentIndex64 [(0, 0), (0, 10), (0, 20)] (0, 15))
        ([(0, 0), (0, 10), (0, 20)] ! (nearestSegmentIndex64 [(0, 0), (0, 10), (0, 20)] (0, 15) + 1))
        (0, 15) \<le> 0"
proof -
  let ?vs = "[(0, 0), (0, 10), (0, 20 :: double)]"
  have len: "2 \<le> length ?vs" by simp
  note d0 = example_distances64(1) and d1 = example_distances64(2)
  note min = nearestSegmentIndex64_minimal [OF len, of "(0, 15)", unfolded Let_def, THEN conjunct1]
  have lt: "nearestSegmentIndex64 ?vs (0, 15) < 2"
    using min by simp
  have "segDist64 (?vs ! nearestSegmentIndex64 ?vs (0, 15))
          (?vs ! (nearestSegmentIndex64 ?vs (0, 15) + 1)) (0, 15)
        \<le> segDist64 (?vs ! 1) (?vs ! (1 + 1)) (0, 15)"
    by (rule min [THEN conjunct2, THEN conjunct1, rule_format, of 1]) simp
  then have le: "segDist64 (?vs ! nearestSegmentIndex64 ?vs (0, 15))
          (?vs ! (nearestSegmentIndex64 ?vs (0, 15) + 1)) (0, 15) \<le> 0"
    using d1 by simp
  show ?thesis using len d0 d1 lt le by (intro conjI)
qed

text \<open>
  The index is not that of the least exact distance with ties to the lowest index. On the
  vertices \<open>[(2,4), (5,4), (1,1)]\<close> and the point \<open>(2,3)\<close> the nearest point of the path is
  the vertex \<open>(2,4)\<close> of the first segment, and the second segment is at the same exact
  squared distance 1, reached at the parameter 3/5: index 0 is the lowest index of least
  distance. The program rounds 15/25 to the double below 3/5, computes 1 for the first
  segment and \<open>1 - 2^-52\<close> for the second, and returns 1.
\<close>

theorem equal_distances_rounded_apart:
  "segDist (2, 4) (5, 4) (2, 3) = 1
   \<and> segDist (5, 4) (1, 1) (2, 3) = 1
   \<and> nearestSegmentIndex [(2, 4), (5, 4), (1, 1)] (2, 3) = 0
   \<and> segDist64 (2, 4) (5, 4) (2, 3) = 1
   \<and> segDist64 (5, 4) (1, 1) (2, 3) = 4503599627370495 / 4503599627370496
   \<and> nearestSegmentIndex64 [(2, 4), (5, 4), (1, 1)] (2, 3) = 1"
proof -
  have e0: "segDist (2, 4) (5, 4) (2, 3) = 1"
    by (simp add: segDist_def orElse_def Let_def)
  have e1: "segDist (5, 4) (1, 1) (2, 3) = 1"
    by (simp add: segDist_def orElse_def Let_def power2_eq_square)
  have ei: "nearestSegmentIndex [(2, 4), (5, 4), (1, 1)] (2, 3) = 0"
    by (simp add: nearestSegmentIndex_def nearestStep_def e0 e1 upt_rec)
  have d0: "segDist64 (2, 4) (5, 4) (2, 3) = 1"
    by code_simp
  have d1: "segDist64 (5, 4) (1, 1) (2, 3) = 4503599627370495 / 4503599627370496"
    by code_simp
  have di: "nearestSegmentIndex64 [(2, 4), (5, 4), (1, 1)] (2, 3) = 1"
    by (simp add: nearestSegmentIndex64_def nearestStep64_def d0 d1 upt_rec)
  show ?thesis using e0 e1 ei d0 d1 di by (intro conjI)
qed

section \<open>The store\<close>

text \<open>
  C5. \<open>addLink s t\<close> appends a straight link with empty waypoints when no link has the
  ordered pair \<open>(s, t)\<close>, and changes nothing when one has; a second call changes nothing
  after the first; and in a store with at most one link \<open>(s, t)\<close>, two calls leave exactly
  one.
\<close>

theorem addLink_once:
  "((\<forall>e\<in>set (links st). \<not> (source e = s \<and> target e = t)) \<longrightarrow>
        addLink s t st = st\<lparr>links := links st @
          [\<lparr>source = s, target = t, style = Straight, waypoints = Some [], curvy = None\<rparr>]\<rparr>)
   \<and> ((\<exists>e\<in>set (links st). source e = s \<and> target e = t) \<longrightarrow> addLink s t st = st)
   \<and> addLink s t (addLink s t st) = addLink s t st
   \<and> (length (filter (\<lambda>e. source e = s \<and> target e = t) (links st)) \<le> 1 \<longrightarrow>
        length (filter (\<lambda>e. source e = s \<and> target e = t) (links (addLink s t (addLink s t st)))) = 1)"
proof (intro conjI impI)
  assume "\<forall>e\<in>set (links st). \<not> (source e = s \<and> target e = t)"
  then show "addLink s t st = st\<lparr>links := links st @
          [\<lparr>source = s, target = t, style = Straight, waypoints = Some [], curvy = None\<rparr>]\<rparr>"
    by (simp add: addLink_def list_ex_iff)
next
  assume "\<exists>e\<in>set (links st). source e = s \<and> target e = t"
  then show "addLink s t st = st"
    by (simp add: addLink_def list_ex_iff)
next
  show twice: "addLink s t (addLink s t st) = addLink s t st"
    by (simp add: addLink_def list_ex_iff)
  assume one: "length (filter (\<lambda>e. source e = s \<and> target e = t) (links st)) \<le> 1"
  show "length (filter (\<lambda>e. source e = s \<and> target e = t) (links (addLink s t (addLink s t st)))) = 1"
  proof (cases "\<exists>e\<in>set (links st). source e = s \<and> target e = t")
    case True
    then have "filter (\<lambda>e. source e = s \<and> target e = t) (links st) \<noteq> []"
      by (simp add: filter_empty_conv)
    with one have "length (filter (\<lambda>e. source e = s \<and> target e = t) (links st)) = 1"
      by (cases "filter (\<lambda>e. source e = s \<and> target e = t) (links st)") simp_all
    with True show ?thesis
      unfolding twice by (simp add: addLink_def list_ex_iff)
  next
    case False
    then have "filter (\<lambda>e. source e = s \<and> target e = t) (links st) = []"
      by (simp add: filter_empty_conv)
    with False show ?thesis
      unfolding twice by (simp add: addLink_def list_ex_iff)
  qed
qed

text \<open>
  In the sample store there is no link from \<open>a\<close> to \<open>d\<close>: two calls add exactly one.
  There is one from \<open>a\<close> to \<open>b\<close>: the call changes nothing.
\<close>

theorem addLink_once_witness:
  "links (addLink ''a'' ''d'' (addLink ''a'' ''d'' initialState))
     = sampleLinks @
       [\<lparr>source = ''a'', target = ''d'', style = Straight, waypoints = Some [], curvy = None\<rparr>]
   \<and> length (filter (\<lambda>e. source e = ''a'' \<and> target e = ''d'')
        (links (addLink ''a'' ''d'' (addLink ''a'' ''d'' initialState)))) = 1
   \<and> addLink ''a'' ''b'' initialState = initialState"
proof -
  have none: "\<forall>e\<in>set (links initialState). \<not> (source e = ''a'' \<and> target e = ''d'')"
    by (simp add: initialState_def sampleLinks_def)
  have some: "\<exists>e\<in>set (links initialState). source e = ''a'' \<and> target e = ''b''"
    by (simp add: initialState_def sampleLinks_def)
  have few: "length (filter (\<lambda>e. source e = ''a'' \<and> target e = ''d'') (links initialState)) \<le> 1"
    by (simp add: initialState_def sampleLinks_def)
  note ad = addLink_once [of initialState "''a''" "''d''"]
  note ab = addLink_once [of initialState "''a''" "''b''"]
  have 1: "addLink ''a'' ''d'' initialState = initialState\<lparr>links := links initialState @
          [\<lparr>source = ''a'', target = ''d'', style = Straight, waypoints = Some [], curvy = None\<rparr>]\<rparr>"
    using ad none by blast
  have 2: "addLink ''a'' ''d'' (addLink ''a'' ''d'' initialState) = addLink ''a'' ''d'' initialState"
    using ad by blast
  have 3: "length (filter (\<lambda>e. source e = ''a'' \<and> target e = ''d'')
        (links (addLink ''a'' ''d'' (addLink ''a'' ''d'' initialState)))) = 1"
    using ad few by blast
  have 4: "addLink ''a'' ''b'' initialState = initialState"
    using ab some by blast
  have "links (addLink ''a'' ''d'' initialState)
     = sampleLinks @
       [\<lparr>source = ''a'', target = ''d'', style = Straight, waypoints = Some [], curvy = None\<rparr>]"
    unfolding 1 by (simp add: initialState_def)
  then have "links (addLink ''a'' ''d'' (addLink ''a'' ''d'' initialState))
     = sampleLinks @
       [\<lparr>source = ''a'', target = ''d'', style = Straight, waypoints = Some [], curvy = None\<rparr>]"
    unfolding 2 .
  then show ?thesis using 3 4 by (intro conjI)
qed

section \<open>Removing a device\<close>

lemma findDevice_filter_None: "findDevice (filter (\<lambda>d. devId d \<noteq> i) ds) i = None"
  by (simp add: findDevice_def find_None_iff)

lemma removeDevice_twice: "removeDevice i (removeDevice i st) = removeDevice i st"
  by (cases "editingLink st") (auto simp: removeDevice_def split: prod.splits)

text \<open>
  In every state, \<open>removeDevice i\<close> leaves no device with id \<open>i\<close> and keeps every other device;
  it keeps exactly the links that have neither end at \<open>i\<close>, so no link of the store refers
  to \<open>i\<close> afterwards; an edit session on a link with an end at \<open>i\<close> is left
  (\<open>editingLink\<close> is reset) and any other session is kept; a second call changes nothing
  after the first; and the call changes nothing when no device, link, selection, popup or
  edit session refers to \<open>i\<close>.
\<close>

theorem removeDevice_cascade:
  "findDevice (devices (removeDevice i st)) i = None
   \<and> set (devices (removeDevice i st)) = {d \<in> set (devices st). devId d \<noteq> i}
   \<and> set (links (removeDevice i st)) = {l \<in> set (links st). source l \<noteq> i \<and> target l \<noteq> i}
   \<and> (\<forall>l\<in>set (links (removeDevice i st)). source l \<noteq> i \<and> target l \<noteq> i)
   \<and> (\<forall>s t. editingLink st = Some (s, t) \<and> (s = i \<or> t = i) \<longrightarrow>
          editingLink (removeDevice i st) = None)
   \<and> (\<forall>s t. editingLink st = Some (s, t) \<and> s \<noteq> i \<and> t \<noteq> i \<longrightarrow>
          editingLink (removeDevice i st) = Some (s, t))
   \<and> removeDevice i (removeDevice i st) = removeDevice i st
   \<and> (findDevice (devices st) i = None
        \<and> (\<forall>l\<in>set (links st). source l \<noteq> i \<and> target l \<noteq> i)
        \<and> selectedId st \<noteq> Some i \<and> openPopupId st \<noteq> Some i
        \<and> (\<forall>s t. editingLink st = Some (s, t) \<longrightarrow> s \<noteq> i \<and> t \<noteq> i)
      \<longrightarrow> removeDevice i st = st)"
proof (intro conjI allI impI ballI)
  show "findDevice (devices (removeDevice i st)) i = None"
    by (simp add: removeDevice_def findDevice_filter_None)
  show "set (devices (removeDevice i st)) = {d \<in> set (devices st). devId d \<noteq> i}"
    by (simp add: removeDevice_def)
  show "set (links (removeDevice i st)) = {l \<in> set (links st). source l \<noteq> i \<and> target l \<noteq> i}"
    by (simp add: removeDevice_def)
  show "removeDevice i (removeDevice i st) = removeDevice i st"
    by (rule removeDevice_twice)
next
  fix l assume "l \<in> set (links (removeDevice i st))"
  then show "source l \<noteq> i" and "target l \<noteq> i"
    by (simp_all add: removeDevice_def)
next
  fix s t assume "editingLink st = Some (s, t) \<and> (s = i \<or> t = i)"
  then show "editingLink (removeDevice i st) = None"
    by (auto simp: removeDevice_def)
next
  fix s t assume "editingLink st = Some (s, t) \<and> s \<noteq> i \<and> t \<noteq> i"
  then show "editingLink (removeDevice i st) = Some (s, t)"
    by (simp add: removeDevice_def)
next
  assume absent: "findDevice (devices st) i = None
        \<and> (\<forall>l\<in>set (links st). source l \<noteq> i \<and> target l \<noteq> i)
        \<and> selectedId st \<noteq> Some i \<and> openPopupId st \<noteq> Some i
        \<and> (\<forall>s t. editingLink st = Some (s, t) \<longrightarrow> s \<noteq> i \<and> t \<noteq> i)"
  then have d: "filter (\<lambda>d. devId d \<noteq> i) (devices st) = devices st"
    by (simp add: findDevice_def find_None_iff filter_id_conv)
  have l: "filter (\<lambda>l. source l \<noteq> i \<and> target l \<noteq> i) (links st) = links st"
    using absent by (simp add: filter_id_conv)
  have e: "(case editingLink st of None \<Rightarrow> None
             | Some (s, t) \<Rightarrow> if s = i \<or> t = i then None else Some (s, t)) = editingLink st"
    using absent by (cases "editingLink st") auto
  show "removeDevice i st = st"
    unfolding removeDevice_def d l e using absent by simp
qed


text \<open>
  In the sample store, with the link from \<open>c\<close> to \<open>d\<close> being edited, removing \<open>c\<close>
  leaves the devices \<open>a\<close>, \<open>b\<close>, \<open>d\<close> and the links that avoid \<open>c\<close>, and resets the
  session; removing an id that nothing refers to changes nothing.
\<close>

theorem removeDevice_cascade_witness:
  "editingLink (onContextMenu (sampleLinks ! 3) initialState) = Some (''c'', ''d'')
   \<and> findDevice (devices (removeDevice ''c'' (onContextMenu (sampleLinks ! 3) initialState))) ''c''
       = None
   \<and> editingLink (removeDevice ''c'' (onContextMenu (sampleLinks ! 3) initialState)) = None
   \<and> map (\<lambda>l. (source l, target l))
        (links (removeDevice ''c'' (onContextMenu (sampleLinks ! 3) initialState)))
       = [(''a'', ''b'')]
   \<and> removeDevice ''z'' initialState = initialState"
proof -
  let ?st = "onContextMenu (sampleLinks ! 3) initialState"
  have e: "editingLink ?st = Some (''c'', ''d'')"
    by (simp add: onContextMenu_def sampleLinks_def Let_def)
  note c = removeDevice_cascade [of "''c''" ?st]
  note z = removeDevice_cascade [of "''z''" initialState]
  have 1: "findDevice (devices (removeDevice ''c'' ?st)) ''c'' = None"
    using c by blast
  have 2: "editingLink (removeDevice ''c'' ?st) = None"
    using c e by blast
  have 3: "map (\<lambda>l. (source l, target l)) (links (removeDevice ''c'' ?st)) = [(''a'', ''b'')]"
    by (simp add: removeDevice_def onContextMenu_def initialState_def sampleLinks_def Let_def)
  have absent: "findDevice (devices initialState) ''z'' = None
        \<and> (\<forall>l\<in>set (links initialState). source l \<noteq> ''z'' \<and> target l \<noteq> ''z'')
        \<and> selectedId initialState \<noteq> Some ''z'' \<and> openPopupId initialState \<noteq> Some ''z''
        \<and> (\<forall>s t. editingLink initialState = Some (s, t) \<longrightarrow> s \<noteq> ''z'' \<and> t \<noteq> ''z'')"
    by (simp add: initialState_def sampleLinks_def sampleDevices_def findDevice_def)
  have 4: "removeDevice ''z'' initialState = initialState"
    using z absent by blast
  show ?thesis using e 1 2 3 4 by (intro conjI)
qed

text \<open>
  C6. From the sample store: the edit of the custom link from \<open>c\<close> to \<open>d\<close> begins and the
  drag of its waypoint 0 starts. Removing the device \<open>c\<close> then removes the device and the
  three links with an end at \<open>c\<close> and resets \<open>editingLink\<close>, but \<open>draggingWp\<close> still names
  the removed link: the edit session has not returned to its idle state, in which nothing
  is edited and nothing is dragged.
\<close>

theorem removeDevice_leaves_drag:
  "editingLink (onHandleDragStart 0 (onContextMenu (sampleLinks ! 3) initialState))
     = Some (''c'', ''d'')
   \<and> draggingWp (onHandleDragStart 0 (onContextMenu (sampleLinks ! 3) initialState))
     = Some (''c'', ''d'', 0)
   \<and> map devId (devices (removeDevice ''c''
        (onHandleDragStart 0 (onContextMenu (sampleLinks ! 3) initialState))))
     = [''a'', ''b'', ''d'']
   \<and> map (\<lambda>l. (source l, target l)) (links (removeDevice ''c''
        (onHandleDragStart 0 (onContextMenu (sampleLinks ! 3) initialState))))
     = [(''a'', ''b'')]
   \<and> editingLink (removeDevice ''c''
        (onHandleDragStart 0 (onContextMenu (sampleLinks ! 3) initialState)))
     = None
   \<and> draggingWp (removeDevice ''c''
        (onHandleDragStart 0 (onContextMenu (sampleLinks ! 3) initialState)))
     = Some (''c'', ''d'', 0)"
proof -
  let ?st = "onHandleDragStart 0 (onContextMenu (sampleLinks ! 3) initialState)"
  have st: "?st = initialState\<lparr>editingLink := Some (''c'', ''d''),
                                draggingWp := Some (''c'', ''d'', 0)\<rparr>"
    by (simp add: onHandleDragStart_def onContextMenu_def activeLink_def findLink_def
        initialState_def sampleLinks_def waypointsOrEmpty_def Let_def)
  show ?thesis
    unfolding st
    by (simp add: removeDevice_def initialState_def sampleLinks_def sampleDevices_def)
qed

section \<open>Dragging a waypoint\<close>

text \<open>
  In a list with distinct keys, updating every element of the key found by \<open>find\<close> updates
  one position, the one \<open>find\<close> returns.
\<close>

lemma map_update_unique:
  assumes "distinct (map key ls)" and "find (\<lambda>x. key x = k) ls = Some l"
  shows "\<exists>n<length ls. ls ! n = l \<and> map (\<lambda>x. if key x = k then f x else x) ls = ls[n := f l]"
  using assms
proof (induction ls)
  case Nil
  then show ?case by simp
next
  case (Cons x xs)
  show ?case
  proof (cases "key x = k")
    case True
    then have l: "l = x" using Cons.prems(2) by simp
    have "\<forall>y\<in>set xs. key y \<noteq> k"
      using Cons.prems(1) True by (force simp: image_iff)
    then have "map (\<lambda>x. if key x = k then f x else x) xs = xs"
      by (simp add: map_idI)
    then show ?thesis
      using True l by (intro exI [of _ 0]) simp
  next
    case False
    then have "find (\<lambda>x. key x = k) xs = Some l"
      using Cons.prems(2) by simp
    moreover have "distinct (map key xs)"
      using Cons.prems(1) by simp
    ultimately obtain n where "n < length xs" "xs ! n = l"
      "map (\<lambda>x. if key x = k then f x else x) xs = xs[n := f l]"
      using Cons.IH by blast
    then show ?thesis
      using False by (intro exI [of _ "Suc n"]) simp
  qed
qed

lemma setLinkWaypoints_unique:
  assumes "distinct (map (\<lambda>l. (source l, target l)) (links st))"
    and "findLink (links st) s t = Some l"
  shows "\<exists>n<length (links st). links st ! n = l
           \<and> setLinkWaypoints s t w st = st\<lparr>links := (links st)[n := l\<lparr>waypoints := Some w\<rparr>]\<rparr>"
proof -
  have f: "find (\<lambda>x. (source x, target x) = (s, t)) (links st) = Some l"
    using assms(2) by (simp add: findLink_def)
  from map_update_unique [OF assms(1) f, of "\<lambda>l. l\<lparr>waypoints := Some w\<rparr>"]
  show ?thesis by (auto simp: setLinkWaypoints_def)
qed

text \<open>
  C9. While a waypoint \<open>(s, t, i)\<close> is dragged, a mouse move leaves the state as it is
  when the store has no link \<open>(s, t)\<close>, when that link is not custom, or when \<open>i\<close> is not
  an index of its waypoints. Otherwise, in a store where no two links share an ordered
  pair, the move replaces that one link by itself with waypoint \<open>i\<close> set to the new point,
  and changes nothing else.
\<close>

theorem drag_move_guarded:
  assumes "draggingWp st = Some (s, t, i)"
  shows "(findLink (links st) s t = None \<longrightarrow> onMouseMove p st = st)
       \<and> (\<forall>l. findLink (links st) s t = Some l \<and> style l \<noteq> Custom \<longrightarrow> onMouseMove p st = st)
       \<and> (\<forall>l. findLink (links st) s t = Some l \<and> length (waypointsOrEmpty l) \<le> i \<longrightarrow>
              onMouseMove p st = st)
       \<and> (\<forall>l. findLink (links st) s t = Some l \<and> style l = Custom
                \<and> i < length (waypointsOrEmpty l)
                \<and> distinct (map (\<lambda>l. (source l, target l)) (links st)) \<longrightarrow>
              (\<exists>n<length (links st). links st ! n = l
                 \<and> onMouseMove p st
                   = st\<lparr>links := (links st)
                        [n := l\<lparr>waypoints := Some ((waypointsOrEmpty l)[i := p])\<rparr>]\<rparr>))"
proof (intro conjI allI impI)
  assume "findLink (links st) s t = None"
  then show "onMouseMove p st = st"
    using assms by (simp add: onMouseMove_def)
next
  fix l assume "findLink (links st) s t = Some l \<and> style l \<noteq> Custom"
  then show "onMouseMove p st = st"
    using assms by (simp add: onMouseMove_def)
next
  fix l assume "findLink (links st) s t = Some l \<and> length (waypointsOrEmpty l) \<le> i"
  then show "onMouseMove p st = st"
    using assms by (simp add: onMouseMove_def Let_def)
next
  fix l
  assume h: "findLink (links st) s t = Some l \<and> style l = Custom
                \<and> i < length (waypointsOrEmpty l)
                \<and> distinct (map (\<lambda>l. (source l, target l)) (links st))"
  then have "onMouseMove p st = setLinkWaypoints s t ((waypointsOrEmpty l)[i := p]) st"
    using assms by (simp add: onMouseMove_def Let_def)
  moreover have "\<exists>n<length (links st). links st ! n = l
           \<and> setLinkWaypoints s t ((waypointsOrEmpty l)[i := p]) st
             = st\<lparr>links := (links st)[n := l\<lparr>waypoints := Some ((waypointsOrEmpty l)[i := p])\<rparr>]\<rparr>"
    using h by (intro setLinkWaypoints_unique) simp_all
  ultimately show "\<exists>n<length (links st). links st ! n = l
                 \<and> onMouseMove p st
                   = st\<lparr>links := (links st)
                        [n := l\<lparr>waypoints := Some ((waypointsOrEmpty l)[i := p])\<rparr>]\<rparr>"
    by simp
qed


text \<open>
  In the sample store, after the edit of the link from \<open>c\<close> to \<open>d\<close> has begun and the
  drag of its waypoint 0 has started: a move sets that waypoint; after the link is removed,
  made straight, or cleared of its waypoints, a move changes nothing.
\<close>

theorem drag_move_guarded_witness:
  "draggingWp (onHandleDragStart 0 (onContextMenu (sampleLinks ! 3) initialState))
     = Some (''c'', ''d'', 0)
   \<and> (\<exists>n<length sampleLinks.
         onMouseMove (50, 5) (onHandleDragStart 0 (onContextMenu (sampleLinks ! 3) initialState))
         = (onHandleDragStart 0 (onContextMenu (sampleLinks ! 3) initialState))
             \<lparr>links := sampleLinks[n := (sampleLinks ! 3)\<lparr>waypoints := Some [(50, 5)]\<rparr>]\<rparr>)
   \<and> onMouseMove (50, 5)
         (removeLink ''c'' ''d'' (onHandleDragStart 0 (onContextMenu (sampleLinks ! 3) initialState)))
       = removeLink ''c'' ''d'' (onHandleDragStart 0 (onContextMenu (sampleLinks ! 3) initialState))
   \<and> onMouseMove (50, 5)
         (setLinkStyle ''c'' ''d'' Straight
            (onHandleDragStart 0 (onContextMenu (sampleLinks ! 3) initialState)))
       = setLinkStyle ''c'' ''d'' Straight
            (onHandleDragStart 0 (onContextMenu (sampleLinks ! 3) initialState))
   \<and> onMouseMove (50, 5)
         (setLinkWaypoints ''c'' ''d'' []
            (onHandleDragStart 0 (onContextMenu (sampleLinks ! 3) initialState)))
       = setLinkWaypoints ''c'' ''d'' []
            (onHandleDragStart 0 (onContextMenu (sampleLinks ! 3) initialState))"
proof -
  let ?st = "onHandleDragStart 0 (onContextMenu (sampleLinks ! 3) initialState)"
  let ?l = "sampleLinks ! 3"
  have st: "?st = initialState\<lparr>editingLink := Some (''c'', ''d''),
                                draggingWp := Some (''c'', ''d'', 0)\<rparr>"
    by (simp add: onHandleDragStart_def onContextMenu_def activeLink_def findLink_def
        initialState_def sampleLinks_def waypointsOrEmpty_def Let_def)
  have drag: "draggingWp ?st = Some (''c'', ''d'', 0)"
    unfolding st by simp
  have ls: "links ?st = sampleLinks"
    unfolding st by (simp add: initialState_def)
  have good: "findLink (links ?st) ''c'' ''d'' = Some ?l \<and> style ?l = Custom
      \<and> 0 < length (waypointsOrEmpty ?l)
      \<and> distinct (map (\<lambda>l. (source l, target l)) (links ?st))"
    unfolding ls by (simp add: findLink_def sampleLinks_def waypointsOrEmpty_def)
  have "\<exists>n<length (links ?st). links ?st ! n = ?l
      \<and> onMouseMove (50, 5) ?st
        = ?st\<lparr>links := (links ?st)[n := ?l\<lparr>waypoints := Some ((waypointsOrEmpty ?l)[0 := (50, 5)])\<rparr>]\<rparr>"
    using drag_move_guarded [OF drag, of "(50, 5)"] good by blast
  moreover have "(waypointsOrEmpty ?l)[0 := (50, 5)] = [(50, 5)]"
    by (simp add: sampleLinks_def waypointsOrEmpty_def)
  ultimately have 1: "\<exists>n<length sampleLinks. onMouseMove (50, 5) ?st
        = ?st\<lparr>links := sampleLinks[n := ?l\<lparr>waypoints := Some [(50, 5)]\<rparr>]\<rparr>"
    unfolding ls by auto
  let ?r = "removeLink ''c'' ''d'' ?st"
  have "draggingWp ?r = Some (''c'', ''d'', 0)"
    unfolding st by (simp add: removeLink_def)
  moreover have "findLink (links ?r) ''c'' ''d'' = None"
    unfolding st by (simp add: removeLink_def initialState_def sampleLinks_def findLink_def)
  ultimately have 2: "onMouseMove (50, 5) ?r = ?r"
    using drag_move_guarded [of ?r "''c''" "''d''" 0 "(50, 5)"] by blast
  let ?s = "setLinkStyle ''c'' ''d'' Straight ?st"
  have "draggingWp ?s = Some (''c'', ''d'', 0)"
    unfolding st by (simp add: setLinkStyle_def)
  moreover have "findLink (links ?s) ''c'' ''d'' = Some (?l\<lparr>style := Straight\<rparr>)
      \<and> style (?l\<lparr>style := Straight\<rparr>) \<noteq> Custom"
    unfolding st by (simp add: setLinkStyle_def initialState_def sampleLinks_def findLink_def)
  ultimately have 3: "onMouseMove (50, 5) ?s = ?s"
    using drag_move_guarded [of ?s "''c''" "''d''" 0 "(50, 5)"] by blast
  let ?w = "setLinkWaypoints ''c'' ''d'' [] ?st"
  have "draggingWp ?w = Some (''c'', ''d'', 0)"
    unfolding st by (simp add: setLinkWaypoints_def)
  moreover have "findLink (links ?w) ''c'' ''d'' = Some (?l\<lparr>waypoints := Some []\<rparr>)
      \<and> length (waypointsOrEmpty (?l\<lparr>waypoints := Some []\<rparr>)) \<le> 0"
    unfolding st by (simp add: setLinkWaypoints_def initialState_def sampleLinks_def findLink_def
        waypointsOrEmpty_def)
  ultimately have 4: "onMouseMove (50, 5) ?w = ?w"
    using drag_move_guarded [of ?w "''c''" "''d''" 0 "(50, 5)"] by blast
  show ?thesis using drag 1 2 3 4 by (intro conjI)
qed

section \<open>Beginning the edit of a curved link\<close>









lemma findLink_Some_key:
  assumes "findLink ls s t = Some l"
  shows "source l = s \<and> target l = t"
  using assms by (auto simp: findLink_def find_Some_iff)




section \<open>Links from a device to itself\<close>

lemma arcPoint_self: "arcPoint a a c u = a"
  by (simp add: arcPoint_def)

lemma curvedPath_self:
  assumes "0 < n"
  shows "curvedPath a a n c = replicate (n + 1) a"
proof (rule nth_equalityI)
  show "length (curvedPath a a n c) = length (replicate (n + 1) a)"
    by (simp add: curvedPath_length)
next
  fix i assume "i < length (curvedPath a a n c)"
  then have i: "i \<le> n" by (simp add: curvedPath_length)
  then have "curvedPath a a n c ! i = a"
    by (simp add: curvedPath_nth arcPoint_self)
  moreover have "replicate (n + 1) a ! i = a"
    by (rule nth_replicate) (use i in simp)
  ultimately show "curvedPath a a n c ! i = replicate (n + 1) a ! i"
    by (simp only:)
qed

lemma vv_pos: "0 < orElse (vx * vx + vy * vy) (1 / 10 ^ 9)"
proof -
  have "0 \<le> vx * vx + vy * vy" by simp
  then show ?thesis by (simp add: orElse_def less_le)
qed

lemma segDist_point:
  "segDist a a p = (fst p - fst a) * (fst p - fst a) + (snd p - snd a) * (snd p - snd a)"
  by (simp add: segDist_def Let_def)

subsection \<open>The arc from Bangkok to Bangkok in double arithmetic\<close>

text \<open>
  The doubles of the literals \<^verbatim>\<open>13.7563\<close>, \<^verbatim>\<open>100.5018\<close> (Bangkok) and \<^verbatim>\<open>0.28\<close>, and the
  control point of the arc from Bangkok to Bangkok, which is Bangkok.
\<close>

lemma bangkok_doubles:
  "fl (137563 / 10000) = 3872054222124797 / 281474976710656"
  "fl (1005018 / 10000) = 7072185453594752 / 70368744177664"
  by code_simp+

lemma bangkok_control:
  "control64 (3872054222124797 / 281474976710656, 7072185453594752 / 70368744177664)
     (3872054222124797 / 281474976710656, 7072185453594752 / 70368744177664) (fl (28 / 100))
   = (3872054222124797 / 281474976710656, 7072185453594752 / 70368744177664)"
  by code_simp

text \<open>
  The longitude of sample 1 of that arc, one rounding at a time: \<open>t = 1/28\<close>,
  \<open>omt = 1 - t\<close>, the three products and the two sums. The result is one unit in the
  last place above the longitude of Bangkok.
\<close>

lemma bangkok_sample_1:
  "snd (arcSample64 (3872054222124797 / 281474976710656, 7072185453594752 / 70368744177664)
          (3872054222124797 / 281474976710656, 7072185453594752 / 70368744177664)
          (3872054222124797 / 281474976710656, 7072185453594752 / 70368744177664)
          (fl (of_nat 1 / of_nat 28)))
   = 7072185453594753 / 70368744177664"
proof -
  have t: "fl (of_nat 1 / of_nat 28) = 2573485501354569 / 72057594037927936"
    by code_simp
  have omt: "fl (1 - 2573485501354569 / 72057594037927936)
      = 8685513567071671 / 9007199254740992"
    by code_simp
  have oo: "fl (8685513567071671 / 9007199254740992 * (8685513567071671 / 9007199254740992))
      = 8375316653961969 / 9007199254740992"
    by code_simp
  have x: "fl (8375316653961969 / 9007199254740992 * (7072185453594752 / 70368744177664))
      = 3288024997238887 / 35184372088832"
    by code_simp
  have two: "fl (2 * (8685513567071671 / 9007199254740992))
      = 8685513567071671 / 4503599627370496"
    by code_simp
  have tt: "fl (8685513567071671 / 4503599627370496 * (2573485501354569 / 72057594037927936))
      = 620393826219405 / 9007199254740992"
    by code_simp
  have y: "fl (620393826219405 / 9007199254740992 * (7072185453594752 / 70368744177664))
      = 7793837030492175 / 1125899906842624"
    by code_simp
  have t2: "fl (2573485501354569 / 72057594037927936 * (2573485501354569 / 72057594037927936))
      = 5882252574524729 / 4611686018427387904"
    by code_simp
  have z: "fl (5882252574524729 / 4611686018427387904 * (7072185453594752 / 70368744177664))
      = 4618570092143511 / 36028797018963968"
    by code_simp
  have xy: "fl (3288024997238887 / 35184372088832 + 7793837030492175 / 1125899906842624)
      = 7063164808883535 / 70368744177664"
    by code_simp
  have r: "fl (7063164808883535 / 70368744177664 + 4618570092143511 / 36028797018963968)
      = 7072185453594753 / 70368744177664"
    by code_simp
  show ?thesis
    by (simp only: arcSample64_def Let_def snd_conv t omt oo x two tt y t2 z xy r)
qed


text \<open>
  C10, amended. For a link from a device to itself, whatever its style, the render path is
  defined and not empty and starts and ends at the device; for a straight link it is the
  device twice, for a custom link the device, the waypoints and the device when not curvy,
  and the device twice when it has no waypoints. For a curved link it is 29 copies of the
  device in exact arithmetic; in double arithmetic the arc has 29 points and its first and
  last point are the device bit for bit. The two divisors that depend on the input, the
  length of the normal in \<open>curvedPath\<close> and the squared length of the segment in
  \<open>nearestSegmentIndex\<close>, are positive for every input, so on a segment of length zero the
  distance is the squared distance to its point, and \<open>nearestSegmentIndex\<close> returns 0 on
  the two vertices of such a link. In double arithmetic too the divisor of
  \<open>nearestSegmentIndex\<close> is positive for every input and the index on the two vertices of
  such a link is 0.
\<close>

theorem self_loop_total:
  assumes a: "findDevice devs (source l) = Some a"
    and self: "target l = source l"
  shows "(\<exists>ps. computeRenderPath devs l = Some ps \<and> ps \<noteq> []
            \<and> hd ps = latlng a \<and> last ps = latlng a
            \<and> (style l = Straight \<longrightarrow> ps = [latlng a, latlng a])
            \<and> (style l = Curved \<longrightarrow> ps = replicate 29 (latlng a))
            \<and> (style l = Custom \<and> curvy l \<noteq> Some True \<longrightarrow>
                  ps = [latlng a] @ waypointsOrEmpty l @ [latlng a])
            \<and> (style l = Custom \<and> waypointsOrEmpty l = [] \<longrightarrow> ps = [latlng a, latlng a]))
       \<and> curvedPath (latlng a) (latlng a) 28 0.28 = replicate 29 (latlng a)
       \<and> (\<forall>vx vy. 0 < orElse (hypot (- vy) vx) 1)
       \<and> (\<forall>vx vy. 0 < orElse (vx * vx + vy * vy) (1 / 10 ^ 9))
       \<and> segDist (latlng a) (latlng a) p
           = (fst p - fst (latlng a)) * (fst p - fst (latlng a))
             + (snd p - snd (latlng a)) * (snd p - snd (latlng a))
       \<and> nearestSegmentIndex [latlng a, latlng a] p = 0
       \<and> (\<forall>d c. fl (fst d) = fst d \<and> fl (snd d) = snd d \<longrightarrow>
              length (curvedPath64 d d 28 c) = 29
            \<and> hd (curvedPath64 d d 28 c) = d \<and> last (curvedPath64 d d 28 c) = d)
       \<and> (\<forall>vx vy. 0 < vv64 vx vy)
       \<and> (\<forall>d q. nearestSegmentIndex64 [d, d] q = 0)"
proof -
  let ?A = "latlng a"
  have b: "findDevice devs (target l) = Some a"
    using a self by simp
  have curve: "curvedPath ?A ?A 28 0.28 = replicate 29 ?A"
    using curvedPath_self [of 28 ?A "0.28"] by simp
  have path: "\<exists>ps. computeRenderPath devs l = Some ps \<and> ps \<noteq> []
            \<and> hd ps = ?A \<and> last ps = ?A
            \<and> (style l = Straight \<longrightarrow> ps = [?A, ?A])
            \<and> (style l = Curved \<longrightarrow> ps = replicate 29 ?A)
            \<and> (style l = Custom \<and> curvy l \<noteq> Some True \<longrightarrow> ps = [?A] @ waypointsOrEmpty l @ [?A])
            \<and> (style l = Custom \<and> waypointsOrEmpty l = [] \<longrightarrow> ps = [?A, ?A])"
  proof (cases "style l")
    case Straight
    then have "computeRenderPath devs l = Some [?A, ?A]"
      using a b by (simp add: computeRenderPath_def)
    then show ?thesis
      using Straight by simp
  next
    case Curved
    then have "computeRenderPath devs l = Some (curvedPath ?A ?A 28 0.28)"
      using a b by (simp add: computeRenderPath_def)
    then have "computeRenderPath devs l = Some (replicate 29 ?A)"
      unfolding curve .
    then show ?thesis
      using Curved by (simp add: numeral_eq_Suc)
  next
    case Custom
    let ?ctrl = "[?A] @ waypointsOrEmpty l @ [?A]"
    show ?thesis
    proof (cases "curvy l = Some True")
      case True
      have "computeRenderPath devs l = Some (catmullRomSpline ?ctrl 14)"
        using a b Custom True by (simp add: computeRenderPath_def)
      moreover have "catmullRomSpline ?ctrl 14 \<noteq> []"
        by (rule catmullRom_nonempty) simp
      moreover have "hd (catmullRomSpline ?ctrl 14) = ?A"
        using catmullRom_hd [of ?ctrl 14] by simp
      moreover have "last (catmullRomSpline ?ctrl 14) = ?A"
        using catmullRom_last [of ?ctrl 14] by simp
      moreover have "waypointsOrEmpty l = [] \<longrightarrow> catmullRomSpline ?ctrl 14 = [?A, ?A]"
        by (simp add: catmullRom_short)
      ultimately show ?thesis
        using Custom True by simp
    next
      case False
      have "computeRenderPath devs l = Some ?ctrl"
        using a b Custom False by (simp add: computeRenderPath_def)
      then show ?thesis
        using Custom False by auto
    qed
  qed
  have plen: "\<forall>vx vy. 0 < orElse (hypot (- vy) vx) 1"
    by (simp add: plen_pos)
  have vv: "\<forall>vx vy :: real. 0 < orElse (vx * vx + vy * vy) (1 / 10 ^ 9)"
    using vv_pos by blast
  have idx: "nearestSegmentIndex [?A, ?A] p = 0"
    by (simp add: nearestSegmentIndex_def nearestStep_def)
  have dbl: "\<forall>d c. fl (fst d) = fst d \<and> fl (snd d) = snd d \<longrightarrow>
              length (curvedPath64 d d 28 c) = 29
            \<and> hd (curvedPath64 d d 28 c) = d \<and> last (curvedPath64 d d 28 c) = d"
    by (simp add: curvedPath64_length curvedPath64_first curvedPath64_last)
  have vv64: "\<forall>vx vy. 0 < vv64 vx vy"
    using vv64_pos by blast
  have idx64: "\<forall>d q. nearestSegmentIndex64 [d, d] q = 0"
    by (simp add: nearestSegmentIndex64_def nearestStep64_def)
  show ?thesis
    using path curve plen vv segDist_point [of ?A p] idx dbl vv64 idx64 by (intro conjI)
qed

text \<open>
  A curved link from Bangkok to itself renders as 29 copies of Bangkok in exact arithmetic,
  and in double arithmetic its arc starts and ends at Bangkok.
\<close>

theorem self_loop_total_witness:
  "findDevice sampleDevices
     (source \<lparr>source = ''a'', target = ''a'', style = Curved, waypoints = None, curvy = None\<rparr>)
     = Some (sampleDevices ! 0)
   \<and> target \<lparr>source = ''a'', target = ''a'', style = Curved, waypoints = None, curvy = None\<rparr>
     = source \<lparr>source = ''a'', target = ''a'', style = Curved, waypoints = None, curvy = None\<rparr>
   \<and> computeRenderPath sampleDevices
       \<lparr>source = ''a'', target = ''a'', style = Curved, waypoints = None, curvy = None\<rparr>
     = Some (replicate 29 (13.7563, 100.5018))
   \<and> nearestSegmentIndex [(13.7563, 100.5018), (13.7563, 100.5018)] (0, 0) = 0
   \<and> fl (3872054222124797 / 281474976710656) = 3872054222124797 / 281474976710656
   \<and> fl (7072185453594752 / 70368744177664) = 7072185453594752 / 70368744177664
   \<and> hd (curvedPath64 (3872054222124797 / 281474976710656, 7072185453594752 / 70368744177664)
          (3872054222124797 / 281474976710656, 7072185453594752 / 70368744177664) 28
          (fl (28 / 100)))
     = (3872054222124797 / 281474976710656, 7072185453594752 / 70368744177664)
   \<and> last (curvedPath64 (3872054222124797 / 281474976710656, 7072185453594752 / 70368744177664)
          (3872054222124797 / 281474976710656, 7072185453594752 / 70368744177664) 28
          (fl (28 / 100)))
     = (3872054222124797 / 281474976710656, 7072185453594752 / 70368744177664)"
proof -
  let ?l = "\<lparr>source = ''a'', target = ''a'', style = Curved, waypoints = None, curvy = None\<rparr>"
  let ?d = "(3872054222124797 / 281474976710656, 7072185453594752 / 70368744177664)
    :: double \<times> double"
  have a: "findDevice sampleDevices (source ?l) = Some (sampleDevices ! 0)"
    by (simp add: findDevice_def sampleDevices_def)
  have self: "target ?l = source ?l" by simp
  have sty: "style ?l = Curved" by simp
  have A: "latlng (sampleDevices ! 0) = (13.7563, 100.5018)"
    by (simp add: latlng_def sampleDevices_def)
  have r1: "fl (3872054222124797 / 281474976710656) = 3872054222124797 / 281474976710656"
    and r2: "fl (7072185453594752 / 70368744177664) = 7072185453594752 / 70368744177664"
    by code_simp+
  note inst = self_loop_total [OF a self, of "(0, 0)", unfolded A]
  obtain ps where "computeRenderPath sampleDevices ?l = Some ps"
    and "style ?l = Curved \<longrightarrow> ps = replicate 29 (13.7563, 100.5018)"
    using inst by blast
  then have 1: "computeRenderPath sampleDevices ?l = Some (replicate 29 (13.7563, 100.5018))"
    using sty by blast
  have 2: "nearestSegmentIndex [(13.7563, 100.5018), (13.7563, 100.5018)] (0, 0) = 0"
    using inst by blast
  have "\<forall>d c. fl (fst d) = fst d \<and> fl (snd d) = snd d \<longrightarrow>
              length (curvedPath64 d d 28 c) = 29
            \<and> hd (curvedPath64 d d 28 c) = d \<and> last (curvedPath64 d d 28 c) = d"
    using inst by blast
  then have "fl (fst ?d) = fst ?d \<and> fl (snd ?d) = snd ?d \<longrightarrow>
      hd (curvedPath64 ?d ?d 28 (fl (28 / 100))) = ?d
    \<and> last (curvedPath64 ?d ?d 28 (fl (28 / 100))) = ?d"
    by blast
  then have 3: "hd (curvedPath64 ?d ?d 28 (fl (28 / 100))) = ?d"
    and 4: "last (curvedPath64 ?d ?d 28 (fl (28 / 100))) = ?d"
    using r1 r2 by (simp_all only: fst_conv snd_conv simp_thms)
  show ?thesis using a self 1 2 r1 r2 3 4 by (intro conjI)
qed

text \<open>
  The arc of a curved link from a device to itself is not 29 copies of the device in double
  arithmetic: from Bangkok to Bangkok, sample 1 has a longitude one unit in the last place
  above the longitude of Bangkok.
\<close>

theorem degenerate_arc_rounding:
  "curvedPath64 (fl (137563 / 10000), fl (1005018 / 10000))
     (fl (137563 / 10000), fl (1005018 / 10000)) 28 (fl (28 / 100))
   \<noteq> replicate 29 (fl (137563 / 10000), fl (1005018 / 10000))"
proof
  let ?A = "(3872054222124797 / 281474976710656, 7072185453594752 / 70368744177664) :: double \<times> double"
  assume "curvedPath64 (fl (137563 / 10000), fl (1005018 / 10000))
     (fl (137563 / 10000), fl (1005018 / 10000)) 28 (fl (28 / 100))
   = replicate 29 (fl (137563 / 10000), fl (1005018 / 10000))"
  then have eq: "curvedPath64 ?A ?A 28 (fl (28 / 100)) = replicate 29 ?A"
    unfolding bangkok_doubles .
  have "curvedPath64 ?A ?A 28 (fl (28 / 100)) ! 1
      = arcSample64 ?A ?A (control64 ?A ?A (fl (28 / 100))) (fl (of_nat 1 / of_nat 28))"
    by (rule curvedPath64_nth) simp
  then have "snd (curvedPath64 ?A ?A 28 (fl (28 / 100)) ! 1) = 7072185453594753 / 70368744177664"
    unfolding bangkok_control by (simp only: bangkok_sample_1)
  moreover have "snd (replicate 29 ?A ! 1) = 7072185453594752 / 70368744177664"
    by simp
  ultimately show False
    unfolding eq by simp
qed

section \<open>The drag sub-state and the edit session\<close>

text \<open>
  The handlers that end the edit session by a cancel, Escape and the right click on the
  map, reset \<open>draggingWp\<close> together with \<open>editingLink\<close>, and the release, the end and the
  start of a drag keep the drag on the edited link: all of them keep \<open>dragWithinEdit\<close>.
\<close>

lemma escape_keeps_dragWithinEdit:
  assumes "dragWithinEdit st"
  shows "dragWithinEdit (onKey ''Escape'' formTyping st)"
  using assms
  by (cases "editingLink st")
     (auto simp: onKey_def dragWithinEdit_def Let_def split: option.splits prod.splits)

lemma mapContextMenu_keeps_dragWithinEdit:
  assumes "dragWithinEdit st"
  shows "dragWithinEdit (onMapContextMenu st)"
  using assms by (auto simp: onMapContextMenu_def dragWithinEdit_def split: option.splits)

lemma mouseUp_keeps_dragWithinEdit: "dragWithinEdit (onMouseUp st)"
  by (auto simp: onMouseUp_def dragWithinEdit_def split: option.splits)

lemma handleDragEnd_keeps_dragWithinEdit:
  assumes "dragWithinEdit st"
  shows "dragWithinEdit (onHandleDragEnd i ll st)"
  using assms
  by (cases "activeLink st")
     (simp_all add: onHandleDragEnd_def dragWithinEdit_def setLinkWaypoints_def)

lemma handleDragStart_keeps_dragWithinEdit:
  assumes "dragWithinEdit st"
  shows "dragWithinEdit (onHandleDragStart i st)"
proof (cases "activeLink st")
  case None
  then show ?thesis using assms by (simp add: onHandleDragStart_def)
next
  case (Some l)
  then obtain s t where e: "editingLink st = Some (s, t)" and f: "findLink (links st) s t = Some l"
    by (auto simp: activeLink_def split: option.splits if_splits)
  have "source l = s \<and> target l = t"
    using f by (rule findLink_Some_key)
  then show ?thesis
    using assms Some e by (simp add: onHandleDragStart_def dragWithinEdit_def)
qed

text \<open>
  C8. From the sample store: the device \<open>c\<close> is selected, the edit of the custom link from
  \<open>c\<close> to \<open>d\<close> begins, and the drag of its waypoint 0 starts; the drag is on the edited
  link. The Delete key then removes \<open>c\<close>: \<open>editingLink\<close> is reset and \<open>draggingWp\<close> still
  names the removed link, so the drag is active on a link that is not being edited. The
  same happens when \<open>d\<close> is removed, when the link is removed, and when its style is set
  to straight.
\<close>

theorem drag_outlives_edit_session:
  "dragWithinEdit
     (onHandleDragStart 0 (onContextMenu (sampleLinks ! 3) (onMarkerClick ''c'' initialState)))
   \<and> editingLink
       (onHandleDragStart 0 (onContextMenu (sampleLinks ! 3) (onMarkerClick ''c'' initialState)))
     = Some (''c'', ''d'')
   \<and> draggingWp
       (onHandleDragStart 0 (onContextMenu (sampleLinks ! 3) (onMarkerClick ''c'' initialState)))
     = Some (''c'', ''d'', 0)
   \<and> editingLink (onKey ''Delete'' False
       (onHandleDragStart 0 (onContextMenu (sampleLinks ! 3) (onMarkerClick ''c'' initialState))))
     = None
   \<and> draggingWp (onKey ''Delete'' False
       (onHandleDragStart 0 (onContextMenu (sampleLinks ! 3) (onMarkerClick ''c'' initialState))))
     = Some (''c'', ''d'', 0)
   \<and> \<not> dragWithinEdit (onKey ''Delete'' False
       (onHandleDragStart 0 (onContextMenu (sampleLinks ! 3) (onMarkerClick ''c'' initialState))))
   \<and> \<not> dragWithinEdit (removeDevice ''d''
       (onHandleDragStart 0 (onContextMenu (sampleLinks ! 3) (onMarkerClick ''c'' initialState))))
   \<and> \<not> dragWithinEdit (removeLink ''c'' ''d''
       (onHandleDragStart 0 (onContextMenu (sampleLinks ! 3) (onMarkerClick ''c'' initialState))))
   \<and> \<not> dragWithinEdit (onSelectStyle (sampleLinks ! 3) Straight
       (onHandleDragStart 0 (onContextMenu (sampleLinks ! 3) (onMarkerClick ''c'' initialState))))"
proof -
  let ?st = "onHandleDragStart 0 (onContextMenu (sampleLinks ! 3) (onMarkerClick ''c'' initialState))"
  have st: "?st = initialState\<lparr>selectedId := Some ''c'', editingLink := Some (''c'', ''d''),
                                draggingWp := Some (''c'', ''d'', 0)\<rparr>"
    by (simp add: onHandleDragStart_def onContextMenu_def onMarkerClick_def activeLink_def
        findLink_def initialState_def sampleLinks_def waypointsOrEmpty_def Let_def)
  have l: "source (sampleLinks ! 3) = ''c''" "target (sampleLinks ! 3) = ''d''"
    by (simp_all add: sampleLinks_def)
  show ?thesis
    unfolding st
    by (simp add: dragWithinEdit_def onKey_def removeDevice_def removeLink_def onSelectStyle_def
        setLinkStyle_def setLinkWaypoints_def setLinkCurvy_def l Let_def initialState_def)
qed

end
